theory Spec2Isabelle
  imports Complex_Main "HOL-Library.Monad_Syntax" "HOL-Library.Multiset" "HOL-Library.Word"
begin

section \<open>FedCompass scheduler: data model\<close>

text \<open>
  The scheduler of \<^verbatim>\<open>FedCompass.cpp\<close> is embedded with explicit state passing.
  A C++ \<^verbatim>\<open>double\<close> is modelled by a real number (exact arithmetic, no rounding, no
  infinities), an \<^verbatim>\<open>int\<close> by an unbounded integer. Whatever the C++ leaves undefined
  (dereferencing a null \<^verbatim>\<open>ClientInfo*\<close> or \<^verbatim>\<open>GOA*\<close>, erasing at \<^verbatim>\<open>end()\<close>, converting
  a non-finite or too large double to \<^verbatim>\<open>int\<close>) is the value \<open>None\<close>.
\<close>

record ClientInfo =
  step :: int
  local_steps :: int
  goa :: int
  total_steps :: int
  speed :: real
  start_time :: real

text \<open>The constructor \<^verbatim>\<open>ClientInfo()\<close>.\<close>

definition ClientInfo_new :: ClientInfo where
  "ClientInfo_new =
     \<lparr>step = -1, local_steps = -1, goa = -1, total_steps = -1, speed = -1, start_time = 0\<rparr>"

record GOA =
  clients :: "int list"
  arrived_clients :: "int list"
  expected_arrival_time :: real
  latest_arrival_time :: real

definition GOA_new :: GOA where
  "GOA_new = \<lparr>clients = [], arrived_clients = [], expected_arrival_time = 0, latest_arrival_time = 0\<rparr>"

record ServerFedCompass =
  counter :: int
  global_step :: int
  general_buffer_size :: int
  group_pseudo_grad :: "int \<rightharpoonup> int"

definition ServerFedCompass_new :: ServerFedCompass where
  "ServerFedCompass_new =
     \<lparr>counter = 0, global_step = 0, general_buffer_size = 0, group_pseudo_grad = Map.empty\<rparr>"

text \<open>
  The scheduler object. Beside the fields of the class, the state carries what the
  simulation kernel holds for it:
  \<^item> \<open>clock\<close> is the value of \<^verbatim>\<open>Engine::get_clock() - start_time\<close>; it changes only at
    a suspension point (\<^verbatim>\<open>execute\<close>, \<^verbatim>\<open>put\<close>, \<^verbatim>\<open>get\<close>), where it takes the next value
    of a clock oracle \<open>clk\<close>, and \<open>ticks\<close> counts the suspension points passed;
  \<^item> \<open>sent\<close> is the log of the \<^verbatim>\<open>put\<close>s on the client mailboxes, as pairs of client and
    payload;
  \<^item> \<open>timers\<close> holds the ids of the groups whose delayed aggregation actor is asleep.
\<close>

record SchedulerCompass =
  iter :: int
  num_clients :: int
  num_global_epochs :: int
  group_counter :: int
  max_local_steps :: int
  min_local_steps :: int
  max_local_steps_bound :: int
  SPEED_MOMENTUM :: real
  LATEST_TIME_FACTOR :: real
  server :: ServerFedCompass
  client_info :: "int \<rightharpoonup> ClientInfo"
  group_of_arrival :: "int \<rightharpoonup> GOA"
  pending_clients :: "int set"
  clock :: real
  ticks :: nat
  sent :: "(int \<times> int) list"
  timers :: "int set"

text \<open>\<^verbatim>\<open>static_cast<int>\<close> of a double truncates toward zero and is undefined outside
  the range of a 32-bit \<^verbatim>\<open>int\<close>.\<close>

definition static_cast_int :: "real \<Rightarrow> int option" where
  "static_cast_int x =
     (let t = (if 0 \<le> x then \<lfloor>x\<rfloor> else \<lceil>x\<rceil>)
      in if - (2 ^ 31) \<le> t \<and> t < 2 ^ 31 then Some t else None)"

text \<open>The constructor \<^verbatim>\<open>SchedulerCompass(...)\<close>; the pending set is the one the server
  filled during its broadcast, and the clock starts at the construction time.\<close>

definition SchedulerCompass_new ::
  "int \<Rightarrow> int \<Rightarrow> int \<Rightarrow> int set \<Rightarrow> real \<Rightarrow> real \<Rightarrow> SchedulerCompass option" where
  "SchedulerCompass_new max_steps n_clients n_epochs pending q_ratio lambda_val =
     do {
       q \<leftarrow> static_cast_int (q_ratio * real_of_int max_steps);
       b \<leftarrow> static_cast_int (12 / 10 * real_of_int max_steps);
       Some \<lparr>iter = 0, num_clients = n_clients, num_global_epochs = n_epochs,
             group_counter = 0, max_local_steps = max_steps,
             min_local_steps = max q 1, max_local_steps_bound = b,
             SPEED_MOMENTUM = 9 / 10, LATEST_TIME_FACTOR = lambda_val,
             server = ServerFedCompass_new, client_info = Map.empty,
             group_of_arrival = Map.empty, pending_clients = pending,
             clock = 0, ticks = 0, sent = [], timers = {}\<rparr>
     }"

subsection \<open>Speed estimation\<close>

text \<open>
  \<^verbatim>\<open>_record_info\<close>. A client index outside the vector and a division by a zero step
  count (a non-finite speed) are outside the model.
\<close>

definition record_info :: "int \<Rightarrow> SchedulerCompass \<Rightarrow> SchedulerCompass option" where
  "record_info client_idx s =
     (if client_idx < 0 \<or> num_clients s \<le> client_idx then None
      else
        let curr_time = clock s;
            local_start_time = (case client_info s client_idx of
                                  None \<Rightarrow> 0 | Some ci \<Rightarrow> start_time ci);
            local_update_time = curr_time - local_start_time;
            steps = (case client_info s client_idx of
                       None \<Rightarrow> max_local_steps s | Some ci \<Rightarrow> local_steps ci)
        in if steps = 0 then None
           else
             let local_speed = local_update_time / real_of_int steps
             in (case client_info s client_idx of
                   None \<Rightarrow>
                     Some (s\<lparr>client_info := (client_info s)(client_idx \<mapsto>
                              ClientInfo_new\<lparr>speed := local_speed, step := 0,
                                             total_steps := min_local_steps s\<rparr>)\<rparr>)
                 | Some ci \<Rightarrow>
                     Some (s\<lparr>client_info := (client_info s)(client_idx \<mapsto>
                              ci\<lparr>speed := (1 - SPEED_MOMENTUM s) * speed ci
                                          + SPEED_MOMENTUM s * local_speed\<rparr>)\<rparr>)))"

text \<open>The per-step sample \<^verbatim>\<open>local_speed\<close> that \<^verbatim>\<open>_record_info\<close> computes.\<close>

definition sample_of :: "int \<Rightarrow> SchedulerCompass \<Rightarrow> real" where
  "sample_of client_idx s =
     (case client_info s client_idx of
        None \<Rightarrow> clock s / real_of_int (max_local_steps s)
      | Some ci \<Rightarrow> (clock s - start_time ci) / real_of_int (local_steps ci))"

definition speed_of :: "int \<Rightarrow> SchedulerCompass \<Rightarrow> real option" where
  "speed_of client_idx s = map_option speed (client_info s client_idx)"

subsection \<open>The simulation kernel as seen by the scheduler\<close>

text \<open>A suspension point: the clock takes the next value of the oracle.\<close>

definition suspend :: "(nat \<Rightarrow> real) \<Rightarrow> SchedulerCompass \<Rightarrow> SchedulerCompass" where
  "suspend clk s = s\<lparr>clock := clk (ticks s), ticks := Suc (ticks s)\<rparr>"

subsection \<open>The server object\<close>

text \<open>\<^verbatim>\<open>ServerFedCompass::update\<close>.\<close>

definition ServerFedCompass_update :: "(nat \<Rightarrow> real) \<Rightarrow> SchedulerCompass \<Rightarrow> SchedulerCompass" where
  "ServerFedCompass_update clk s =
     (let s1 = suspend clk s
      in s1\<lparr>server := (server s1)\<lparr>global_step := global_step (server s1) + 1\<rparr>\<rparr>)"

text \<open>\<^verbatim>\<open>ServerFedCompass::buffer\<close>: an existing counter is reset, then the counter
  (created at 0 by \<^verbatim>\<open>operator[]\<close> when absent) is incremented.\<close>

definition ServerFedCompass_buffer :: "(nat \<Rightarrow> real) \<Rightarrow> int \<Rightarrow> SchedulerCompass \<Rightarrow> SchedulerCompass" where
  "ServerFedCompass_buffer clk group_idx s =
     (let pg = group_pseudo_grad (server s);
          pg1 = (if pg group_idx \<noteq> None then pg(group_idx \<mapsto> 0) else pg);
          s1 = suspend clk s;
          pg2 = pg1(group_idx \<mapsto> (case pg1 group_idx of None \<Rightarrow> 0 | Some v \<Rightarrow> v) + 1)
      in s1\<lparr>server := (server s1)\<lparr>group_pseudo_grad := pg2\<rparr>\<rparr>)"

text \<open>\<^verbatim>\<open>ServerFedCompass::single_buffer\<close>.\<close>

definition ServerFedCompass_single_buffer :: "(nat \<Rightarrow> real) \<Rightarrow> SchedulerCompass \<Rightarrow> SchedulerCompass" where
  "ServerFedCompass_single_buffer clk s =
     (let s1 = suspend clk s
      in s1\<lparr>server := (server s1)\<lparr>general_buffer_size := general_buffer_size (server s1) + 1\<rparr>\<rparr>)"

text \<open>\<^verbatim>\<open>ServerFedCompass::update_group\<close>: it acts when the group has no counter.\<close>

definition ServerFedCompass_update_group ::
  "(nat \<Rightarrow> real) \<Rightarrow> int \<Rightarrow> SchedulerCompass \<Rightarrow> SchedulerCompass" where
  "ServerFedCompass_update_group clk group_idx s =
     (if group_pseudo_grad (server s) group_idx = None
      then let s1 = suspend clk s
           in s1\<lparr>server := (server s1)\<lparr>global_step := global_step (server s1) + 1,
                                        general_buffer_size := 0,
                                        group_pseudo_grad :=
                                          (group_pseudo_grad (server s1))(group_idx := None)\<rparr>\<rparr>
      else s)"

text \<open>\<^verbatim>\<open>ServerFedCompass::update_all\<close>.\<close>

definition ServerFedCompass_update_all :: "(nat \<Rightarrow> real) \<Rightarrow> SchedulerCompass \<Rightarrow> SchedulerCompass" where
  "ServerFedCompass_update_all clk s =
     (let s1 = suspend clk s
      in s1\<lparr>server := (server s1)\<lparr>global_step := global_step (server s1) + 1\<rparr>\<rparr>)"

subsection \<open>Groups of arrival\<close>

text \<open>
  The live groups in the iteration order of the \<^verbatim>\<open>std::map\<close>, that is by ascending key.
  Keys are only ever inserted at \<^verbatim>\<open>group_counter\<close>, which starts at 0 and only grows, so
  the keys lie below it.
\<close>

definition group_list :: "SchedulerCompass \<Rightarrow> (int \<times> GOA) list" where
  "group_list s =
     List.map_filter (\<lambda>g. map_option (Pair g) (group_of_arrival s g)) [0..group_counter s - 1]"

text \<open>The loop of \<^verbatim>\<open>_join_group\<close>, on the pair \<^verbatim>\<open>(assigned_group, assigned_steps)\<close>.\<close>

fun join_scan ::
  "real \<Rightarrow> ClientInfo option \<Rightarrow> int \<Rightarrow> int \<Rightarrow> (int \<times> GOA) list \<Rightarrow> int \<times> int \<Rightarrow> (int \<times> int) option"
where
  "join_scan curr_time cio lo hi [] acc = Some acc"
| "join_scan curr_time cio lo hi ((gid, g) # gs) (assigned_group, assigned_steps) =
     do {
       ci \<leftarrow> cio;
       let remaining_time = expected_arrival_time g - curr_time;
       k \<leftarrow> (if speed ci = 0 then None else static_cast_int (remaining_time / speed ci));
       if k < lo \<or> k < assigned_steps \<or> k > hi
       then join_scan curr_time cio lo hi gs (assigned_group, assigned_steps)
       else join_scan curr_time cio lo hi gs (gid, k)
     }"

text \<open>\<^verbatim>\<open>_join_group\<close>.\<close>

definition join_group :: "int \<Rightarrow> SchedulerCompass \<Rightarrow> (bool \<times> SchedulerCompass) option" where
  "join_group client_idx s =
     do {
       let curr_time = clock s;
       (assigned_group, assigned_steps) \<leftarrow>
          join_scan curr_time (client_info s client_idx) (min_local_steps s)
            (max_local_steps_bound s) (group_list s) (-1, -1);
       if assigned_group \<noteq> -1
       then do {
         ci \<leftarrow> client_info s client_idx;
         g \<leftarrow> group_of_arrival s assigned_group;
         Some (True,
           s\<lparr>client_info := (client_info s)(client_idx \<mapsto>
                ci\<lparr>goa := assigned_group, local_steps := assigned_steps,
                   start_time := curr_time\<rparr>),
             group_of_arrival := (group_of_arrival s)(assigned_group \<mapsto>
                g\<lparr>clients := clients g @ [client_idx]\<rparr>)\<rparr>)
       }
       else Some (False, s)
     }"

text \<open>\<^verbatim>\<open>fastest_speed\<close> of \<^verbatim>\<open>_create_group\<close>: the minimum over the members. Over no
  member it is infinite, and the conversion to \<^verbatim>\<open>int\<close> that follows is undefined.\<close>

fun min_speed :: "(int \<rightharpoonup> ClientInfo) \<Rightarrow> int list \<Rightarrow> real \<Rightarrow> real option" where
  "min_speed info [] acc = Some acc"
| "min_speed info (c # cs) acc =
     do { ci \<leftarrow> info c; min_speed info cs (min acc (speed ci)) }"

definition fastest_speed :: "(int \<rightharpoonup> ClientInfo) \<Rightarrow> int list \<Rightarrow> real option" where
  "fastest_speed info group_clients =
     (case group_clients of
        [] \<Rightarrow> None
      | c # cs \<Rightarrow> do { ci \<leftarrow> info c; min_speed info cs (speed ci) })"

text \<open>The loop of \<^verbatim>\<open>_create_group\<close>, on \<^verbatim>\<open>assigned_steps\<close>. The integer
  \<^verbatim>\<open>static_cast<int>(est_arrival_time - curr_time)\<close> is divided by the speed as a double and
  the quotient is converted to \<^verbatim>\<open>int\<close> again.\<close>

fun create_scan ::
  "(int \<rightharpoonup> ClientInfo) \<Rightarrow> real \<Rightarrow> ClientInfo option \<Rightarrow> int \<Rightarrow> (int \<times> GOA) list \<Rightarrow> int \<Rightarrow> int option"
where
  "create_scan info curr_time cio M [] assigned_steps = Some assigned_steps"
| "create_scan info curr_time cio M ((gid, g) # gs) assigned_steps =
     (if curr_time < latest_arrival_time g
      then do {
        fastest \<leftarrow> fastest_speed info (clients g @ arrived_clients g);
        let est_arrival_time = latest_arrival_time g + fastest * real_of_int M;
        ci \<leftarrow> cio;
        d \<leftarrow> static_cast_int (est_arrival_time - curr_time);
        k \<leftarrow> (if speed ci = 0 then None else static_cast_int (real_of_int d / speed ci));
        if k \<le> M
        then create_scan info curr_time cio M gs (max assigned_steps k)
        else create_scan info curr_time cio M gs assigned_steps
      }
      else create_scan info curr_time cio M gs assigned_steps)"

text \<open>\<^verbatim>\<open>_create_group\<close>. Creating the delayed aggregation actor adds a timer.\<close>

definition create_group :: "int \<Rightarrow> SchedulerCompass \<Rightarrow> SchedulerCompass option" where
  "create_group client_idx s =
     do {
       let curr_time = clock s;
       a \<leftarrow> create_scan (client_info s) curr_time (client_info s client_idx)
              (max_local_steps s) (group_list s) (-1);
       let a1 = (if a \<ge> 0 \<and> a < min_local_steps s then min_local_steps s else a);
       let assigned_steps = (if a1 < 0 then max_local_steps s else a1);
       ci \<leftarrow> client_info s client_idx;
       let gc = group_counter s;
       let g = GOA_new\<lparr>clients := [client_idx],
                 expected_arrival_time := curr_time + real_of_int assigned_steps * speed ci,
                 latest_arrival_time :=
                   curr_time + real_of_int assigned_steps * speed ci * LATEST_TIME_FACTOR s\<rparr>;
       Some (s\<lparr>group_of_arrival := (group_of_arrival s)(gc \<mapsto> g),
               timers := insert gc (timers s),
               client_info := (client_info s)(client_idx \<mapsto>
                 ci\<lparr>goa := gc, local_steps := assigned_steps, start_time := curr_time\<rparr>),
               group_counter := gc + 1\<rparr>)
     }"

text \<open>\<^verbatim>\<open>_assign_group\<close>.\<close>

definition assign_group :: "int \<Rightarrow> SchedulerCompass \<Rightarrow> SchedulerCompass option" where
  "assign_group client_idx s =
     (let curr_time = clock s
      in if group_list s = []
         then do {
           ci \<leftarrow> client_info s client_idx;
           let gc = group_counter s;
           let g = GOA_new\<lparr>clients := [client_idx],
                     expected_arrival_time :=
                       curr_time + real_of_int (max_local_steps s) * speed ci,
                     latest_arrival_time := curr_time + speed ci * LATEST_TIME_FACTOR s\<rparr>;
           Some (s\<lparr>group_of_arrival := (group_of_arrival s)(gc \<mapsto> g),
                   timers := insert gc (timers s),
                   client_info := (client_info s)(client_idx \<mapsto>
                     ci\<lparr>goa := gc, local_steps := max_local_steps s, start_time := curr_time\<rparr>),
                   group_counter := gc + 1\<rparr>)
         }
         else do {
           (joined, s1) \<leftarrow> join_group client_idx s;
           if joined then Some s1 else create_group client_idx s1
         })"

subsection \<open>Dispatch\<close>

text \<open>\<^verbatim>\<open>_send_global_model_to_client\<close>: the \<^verbatim>\<open>put\<close> and the \<^verbatim>\<open>execute\<close> are two
  suspension points.\<close>

definition send_global_model_to_client ::
  "(nat \<Rightarrow> real) \<Rightarrow> int \<Rightarrow> int \<Rightarrow> SchedulerCompass \<Rightarrow> SchedulerCompass" where
  "send_global_model_to_client clk client_idx client_steps s =
     (let s1 = suspend clk (s\<lparr>sent := sent s @ [(client_idx, client_steps)]\<rparr>);
          s2 = suspend clk s1
      in s2\<lparr>pending_clients := insert client_idx (pending_clients s2)\<rparr>)"

text \<open>\<^verbatim>\<open>_send_model\<close>.\<close>

definition send_model :: "(nat \<Rightarrow> real) \<Rightarrow> int \<Rightarrow> SchedulerCompass \<Rightarrow> SchedulerCompass option" where
  "send_model clk client_idx s =
     do {
       ci \<leftarrow> client_info s client_idx;
       let s1 = s\<lparr>client_info := (client_info s)(client_idx \<mapsto>
                   ci\<lparr>total_steps := total_steps ci + local_steps ci\<rparr>)\<rparr>;
       Some (send_global_model_to_client clk client_idx (local_steps ci) s1)
     }"

subsection \<open>Aggregation\<close>

text \<open>The first loop of \<^verbatim>\<open>_group_aggregation\<close>: it stamps the arrived clients with the
  global step and collects the pairs of client and speed.\<close>

fun mark_arrived ::
  "int list \<Rightarrow> SchedulerCompass \<Rightarrow> (SchedulerCompass \<times> (int \<times> real) list) option" where
  "mark_arrived [] s = Some (s, [])"
| "mark_arrived (c # cs) s =
     do {
       ci \<leftarrow> client_info s c;
       (s', ps) \<leftarrow> mark_arrived cs
          (s\<lparr>client_info := (client_info s)(c \<mapsto> ci\<lparr>step := global_step (server s)\<rparr>)\<rparr>);
       Some (s', (c, speed ci) # ps)
     }"

fun assign_all :: "int list \<Rightarrow> SchedulerCompass \<Rightarrow> SchedulerCompass option" where
  "assign_all [] s = Some s"
| "assign_all (c # cs) s = do { s' \<leftarrow> assign_group c s; assign_all cs s' }"

fun send_all :: "(nat \<Rightarrow> real) \<Rightarrow> int list \<Rightarrow> SchedulerCompass \<Rightarrow> SchedulerCompass option" where
  "send_all clk [] s = Some s"
| "send_all clk (c # cs) s = do { s' \<leftarrow> send_model clk c s; send_all clk cs s' }"

text \<open>\<^verbatim>\<open>_group_aggregation\<close>. \<^verbatim>\<open>std::sort\<close> by ascending speed is taken as the stable
  sort (the order of clients of equal speed is unspecified in C++).\<close>

definition group_aggregation ::
  "(nat \<Rightarrow> real) \<Rightarrow> int \<Rightarrow> SchedulerCompass \<Rightarrow> SchedulerCompass option" where
  "group_aggregation clk group_idx s =
     (case group_of_arrival s group_idx of
        None \<Rightarrow> Some s
      | Some g0 \<Rightarrow>
          do {
            let s1 = ServerFedCompass_update_group clk group_idx s;
            (s2, client_speed) \<leftarrow> mark_arrived (arrived_clients g0) s1;
            let sorted_clients = map fst (sort_key snd client_speed);
            let s3 = s2\<lparr>group_of_arrival := (group_of_arrival s2)(group_idx \<mapsto>
                         g0\<lparr>expected_arrival_time := 0, latest_arrival_time := 0\<rparr>)\<rparr>;
            s4 \<leftarrow> assign_all sorted_clients s3;
            g4 \<leftarrow> group_of_arrival s4 group_idx;
            let s5 = (if clients g4 = []
                      then s4\<lparr>group_of_arrival := (group_of_arrival s4)(group_idx := None)\<rparr>
                      else s4);
            if iter s5 < num_global_epochs s5
            then send_all clk sorted_clients s5
            else Some (ServerFedCompass_update_all clk s5)
          })"

text \<open>\<^verbatim>\<open>_single_update\<close>.\<close>

definition single_update ::
  "(nat \<Rightarrow> real) \<Rightarrow> int \<Rightarrow> bool \<Rightarrow> SchedulerCompass \<Rightarrow> SchedulerCompass option" where
  "single_update clk client_idx buffer s =
     do {
       let s1 = (if buffer then ServerFedCompass_single_buffer clk s else ServerFedCompass_update clk s);
       ci \<leftarrow> client_info s1 client_idx;
       let s2 = s1\<lparr>client_info := (client_info s1)(client_idx \<mapsto>
                   ci\<lparr>step := global_step (server s1)\<rparr>)\<rparr>;
       s3 \<leftarrow> assign_group client_idx s2;
       if iter s3 < num_global_epochs s3
       then send_model clk client_idx s3
       else Some (ServerFedCompass_update_all clk s3)
     }"

text \<open>
  \<^verbatim>\<open>v.erase(std::remove(v.begin(), v.end(), x))\<close> with the one-iterator \<^verbatim>\<open>erase\<close>:
  \<^verbatim>\<open>std::remove\<close> moves the elements other than \<open>x\<close> to the front and leaves the tail as
  it was; \<^verbatim>\<open>erase\<close> then deletes the single element at the returned position, which is
  \<^verbatim>\<open>end()\<close> (undefined) when \<open>x\<close> does not occur.
\<close>

definition erase_remove :: "int list \<Rightarrow> int \<Rightarrow> int list option" where
  "erase_remove xs x =
     (let ys = filter (\<lambda>y. y \<noteq> x) xs
      in if length ys = length xs then None
         else Some (ys @ drop (Suc (length ys)) xs))"

text \<open>\<^verbatim>\<open>_group_update\<close>.\<close>

definition group_update ::
  "(nat \<Rightarrow> real) \<Rightarrow> int \<Rightarrow> int \<Rightarrow> SchedulerCompass \<Rightarrow> SchedulerCompass option" where
  "group_update clk client_idx group_idx s =
     do {
       let curr_time = clock s;
       g \<leftarrow> group_of_arrival s group_idx;
       cl \<leftarrow> erase_remove (clients g) client_idx;
       if curr_time \<ge> latest_arrival_time g
       then do {
         let s1 = (if cl = []
                   then s\<lparr>group_of_arrival := (group_of_arrival s)(group_idx := None)\<rparr>
                   else s\<lparr>group_of_arrival := (group_of_arrival s)(group_idx \<mapsto>
                            g\<lparr>clients := cl\<rparr>)\<rparr>);
         single_update clk client_idx True s1
       }
       else do {
         let s1 = s\<lparr>group_of_arrival := (group_of_arrival s)(group_idx \<mapsto>
                     g\<lparr>clients := cl, arrived_clients := arrived_clients g @ [client_idx]\<rparr>)\<rparr>;
         ci \<leftarrow> client_info s1 client_idx;
         let s2 = ServerFedCompass_buffer clk group_idx s1;
         if cl = [] then group_aggregation clk group_idx s2 else Some s2
       }
     }"

text \<open>\<^verbatim>\<open>_update\<close>.\<close>

definition update_client ::
  "(nat \<Rightarrow> real) \<Rightarrow> int \<Rightarrow> SchedulerCompass \<Rightarrow> SchedulerCompass option" where
  "update_client clk client_idx s =
     do {
       let s1 = s\<lparr>iter := iter s + 1\<rparr>;
       ci \<leftarrow> client_info s1 client_idx;
       let group_idx = goa ci;
       if group_idx = -1
       then single_update clk client_idx False s1
       else group_update clk client_idx group_idx s1
     }"

text \<open>\<^verbatim>\<open>_recv_local_model_from_client\<close>, for the client id that the mailbox delivers: the
  \<^verbatim>\<open>get\<close> and the \<^verbatim>\<open>execute\<close> are two suspension points.\<close>

definition recv_local_model_from_client ::
  "(nat \<Rightarrow> real) \<Rightarrow> int \<Rightarrow> SchedulerCompass \<Rightarrow> SchedulerCompass" where
  "recv_local_model_from_client clk client_idx s =
     (let s1 = suspend clk (suspend clk s)
      in s1\<lparr>pending_clients := pending_clients s1 - {client_idx}\<rparr>)"

text \<open>\<^verbatim>\<open>SchedulerCompass::update\<close>.\<close>

definition update :: "(nat \<Rightarrow> real) \<Rightarrow> int \<Rightarrow> SchedulerCompass \<Rightarrow> SchedulerCompass option" where
  "update clk client_idx s =
     do {
       let s0 = recv_local_model_from_client clk client_idx s;
       s1 \<leftarrow> record_info client_idx s0;
       update_client clk client_idx s1
     }"

subsection \<open>Runs of the scheduler\<close>

text \<open>
  Two kinds of events drive the scheduler: the server actor receives the reply of a
  client that holds a model (\<open>Return\<close>), or the delayed actor of a group wakes up and
  calls \<^verbatim>\<open>_group_aggregation\<close> (\<open>Deadline\<close>); the actor of a group wakes up once. Each
  event runs the scheduler method to its end: switches between actors inside a method
  are not modelled. \<open>None\<close> is undefined behaviour of the C++ or an event that cannot
  occur.
\<close>

datatype event = Return int | Deadline int

text \<open>\<^verbatim>\<open>delayed_action\<close> for the actor of group \<open>g\<close>: its \<^verbatim>\<open>sleep_for\<close> is over (a
  suspension point) and it calls \<^verbatim>\<open>_group_aggregation\<close>.\<close>

definition delayed_action ::
  "(nat \<Rightarrow> real) \<Rightarrow> int \<Rightarrow> SchedulerCompass \<Rightarrow> SchedulerCompass option" where
  "delayed_action clk g s =
     group_aggregation clk g (suspend clk (s\<lparr>timers := timers s - {g}\<rparr>))"

definition step_event ::
  "(nat \<Rightarrow> real) \<Rightarrow> event \<Rightarrow> SchedulerCompass \<Rightarrow> SchedulerCompass option" where
  "step_event clk e s =
     (case e of
        Return c \<Rightarrow> if c \<in> pending_clients s then update clk c s else None
      | Deadline g \<Rightarrow> if g \<in> timers s then delayed_action clk g s else None)"

fun run :: "(nat \<Rightarrow> real) \<Rightarrow> event list \<Rightarrow> SchedulerCompass \<Rightarrow> SchedulerCompass option" where
  "run clk [] s = Some s"
| "run clk (e # es) s = do { s' \<leftarrow> step_event clk e s; run clk es s' }"

text \<open>A clock oracle given by the list of its readings (the last one repeats).\<close>

definition clock_of :: "real list \<Rightarrow> nat \<Rightarrow> real" where
  "clock_of ts n = (if n < length ts then ts ! n else last ts)"

subsection \<open>Concrete runs\<close>

text \<open>The state in which client \<open>c\<close>, dispatched at time \<open>t0\<close> with \<open>k\<close> local steps,
  has just returned at time \<open>t\<close>.\<close>

definition returned ::
  "int \<Rightarrow> int \<Rightarrow> real \<Rightarrow> real \<Rightarrow> SchedulerCompass \<Rightarrow> SchedulerCompass" where
  "returned c k t0 t s =
     s\<lparr>clock := t,
       client_info := (client_info s)(c :=
          map_option (\<lambda>ci. ci\<lparr>local_steps := k, start_time := t0\<rparr>) (client_info s c))\<rparr>"

text \<open>Scenario S6: three returns of client 0 with the per-step samples 2, 4 and 4.\<close>

definition smoothing_run :: "(real option \<times> real option \<times> real option) option" where
  "smoothing_run =
     do {
       s0 \<leftarrow> SchedulerCompass_new 10 3 5 {0, 1, 2} (1 / 5) (3 / 2);
       s1 \<leftarrow> record_info 0 (s0\<lparr>clock := 20\<rparr>);
       s2 \<leftarrow> record_info 0 (returned 0 5 20 40 s1);
       s3 \<leftarrow> record_info 0 (returned 0 5 40 60 s2);
       Some (speed_of 0 s1, speed_of 0 s2, speed_of 0 s3)
     }"

subsection \<open>Predicates on scheduler states\<close>

text \<open>The three step bounds, which no method changes.\<close>

definition cfg :: "SchedulerCompass \<Rightarrow> int \<times> int \<times> int" where
  "cfg s = (min_local_steps s, max_local_steps s, max_local_steps_bound s)"

definition bounds_ok :: "SchedulerCompass \<Rightarrow> bool" where
  "bounds_ok s \<longleftrightarrow>
     1 \<le> min_local_steps s \<and> min_local_steps s \<le> max_local_steps s \<and> max_local_steps s \<le> max_local_steps_bound s"

definition steps_in_range :: "int \<times> int \<times> int \<Rightarrow> int \<Rightarrow> bool" where
  "steps_in_range b k \<longleftrightarrow> fst b \<le> k \<and> k \<le> snd (snd b)"

definition client_steps_ok :: "SchedulerCompass \<Rightarrow> int \<Rightarrow> bool" where
  "client_steps_ok s c \<longleftrightarrow>
     (case client_info s c of None \<Rightarrow> False | Some ci \<Rightarrow> steps_in_range (cfg s) (local_steps ci))"

definition sent_ok :: "SchedulerCompass \<Rightarrow> bool" where
  "sent_ok s \<longleftrightarrow> list_all (\<lambda>(c, k). steps_in_range (cfg s) k) (sent s)"

definition dispatch_ok :: "SchedulerCompass \<Rightarrow> bool" where
  "dispatch_ok s \<longleftrightarrow> bounds_ok s \<and> sent_ok s"

text \<open>A run of three clients: client 0 returns from the bootstrap round and founds
  group 0, whose deadline passes; clients 1 and 2 return from the bootstrap round, client
  1 creates group 1 and client 2 joins it; client 2 returns in time; the deadline of group
  1 passes while client 1 is still training.\<close>

definition ex_clk :: "nat \<Rightarrow> real" where
  "ex_clk = clock_of [9, 10, 10, 10, 10, 23 / 2, 23 / 2, 12, 12, 12, 12, 12,
                      13, 13, 13, 13, 13, 23, 23, 23, 30]"

definition ex_events :: "event list" where
  "ex_events = [Return 0, Deadline 0, Return 1, Return 2, Return 2, Deadline 1]"

definition ex_run :: "event list \<Rightarrow> SchedulerCompass option" where
  "ex_run es =
     do { s0 \<leftarrow> SchedulerCompass_new 10 3 5 {0, 1, 2} (1 / 5) (3 / 2); run ex_clk es s0 }"

section \<open>Client actors and the drivers\<close>

subsection \<open>Start of a client actor\<close>

text \<open>
  The host speed a \<^verbatim>\<open>client\<close> actor computes with, in \<^verbatim>\<open>FedAvg.cpp\<close> and in
  \<^verbatim>\<open>FedCompass.cpp\<close> alike: \<^verbatim>\<open>speed = host->get_speed(); if (control == 2) speed *= dist(gen);\<close>
  where \<^verbatim>\<open>dist\<close> is \<^verbatim>\<open>std::normal_distribution<double>(0, 0.12)\<close>. The draw is the
  argument \<open>x\<close>.
\<close>

definition client_speed :: "int \<Rightarrow> real \<Rightarrow> real \<Rightarrow> real" where
  "client_speed control host_speed x = (if control = 2 then host_speed * x else host_speed)"

text \<open>The work of the data loading, \<^verbatim>\<open>execute(dataloader_cost * speed)\<close>.\<close>

definition client_dataloader_flops :: "int \<Rightarrow> real \<Rightarrow> real \<Rightarrow> real \<Rightarrow> real" where
  "client_dataloader_flops control host_speed x dataloader_cost =
     dataloader_cost * client_speed control host_speed x"

subsection \<open>Spawning the client actors in \<^verbatim>\<open>main\<close>\<close>

text \<open>The lambda \<^verbatim>\<open>client_multiplier\<close>.\<close>

definition client_multiplier :: "(int \<rightharpoonup> real) \<Rightarrow> int \<Rightarrow> real" where
  "client_multiplier client_effects client_id =
     (case client_effects client_id of None \<Rightarrow> 1 | Some m \<Rightarrow> m)"

text \<open>An actor creation: the number \<open>n\<close> of the host \<^verbatim>\<open>Node-n\<close>, the client id and the two
  cost arguments, as the doubles that \<^verbatim>\<open>main\<close> computes (before \<^verbatim>\<open>std::to_string\<close>).\<close>

record spawn =
  spawn_node :: int
  spawn_client :: int
  spawn_dataloader_cost :: real
  spawn_training_cost :: real

text \<open>
  The loop \<^verbatim>\<open>for (int i = 0; i < bound && client_id < nclients; ++i, ++client_id)\<close> that
  both programs run, with \<open>bound\<close> \<^verbatim>\<open>nclients_pernode - 1\<close> on \<^verbatim>\<open>Node-1\<close> and
  \<^verbatim>\<open>nclients_pernode\<close> on the other nodes. \<open>cost\<close> is the expression of the training cost
  argument in the training cost of the configuration and the multiplier. The result is
  the list of actors created and the value of \<^verbatim>\<open>client_id\<close> after the loop.
\<close>

function spawn_loop ::
  "int \<Rightarrow> int \<Rightarrow> (real \<Rightarrow> real \<Rightarrow> real) \<Rightarrow> int \<Rightarrow> real \<Rightarrow> real \<Rightarrow> (int \<rightharpoonup> real)
   \<Rightarrow> int \<Rightarrow> int \<Rightarrow> spawn list \<times> int" where
  "spawn_loop node bound cost nclients dataloader_cost training_cost client_effects i client_id =
     (if i < bound \<and> client_id < nclients
      then let multiplier = client_multiplier client_effects client_id;
               a = \<lparr>spawn_node = node, spawn_client = client_id,
                    spawn_dataloader_cost = dataloader_cost * multiplier,
                    spawn_training_cost = cost training_cost multiplier\<rparr>;
               (rest, last_id) = spawn_loop node bound cost nclients dataloader_cost
                                   training_cost client_effects (i + 1) (client_id + 1)
           in (a # rest, last_id)
      else ([], client_id))"
  by pat_completeness auto
termination
  by (relation "measure (\<lambda>(node, bound, cost, nclients, dl, tc, eff, i, client_id).
                  nat (nclients - client_id))") auto

declare spawn_loop.simps [simp del]

text \<open>
  The loop \<^verbatim>\<open>while (client_id < nclients)\<close> over the nodes from \<^verbatim>\<open>Node-2\<close> on. With
  \<^verbatim>\<open>nclients_pernode\<close> \<open>\<le> 0\<close> its body creates nobody and the loop does not end: \<open>None\<close>.
\<close>

function other_nodes ::
  "int \<Rightarrow> (real \<Rightarrow> real \<Rightarrow> real) \<Rightarrow> int \<Rightarrow> real \<Rightarrow> real \<Rightarrow> (int \<rightharpoonup> real)
   \<Rightarrow> int \<Rightarrow> int \<Rightarrow> spawn list option" where
  "other_nodes pernode cost nclients dataloader_cost training_cost client_effects node_index client_id =
     (if client_id < nclients
      then if pernode \<le> 0 then None
           else map_option
                  ((@) (fst (spawn_loop node_index pernode cost nclients dataloader_cost
                               training_cost client_effects 0 client_id)))
                  (other_nodes pernode cost nclients dataloader_cost training_cost
                     client_effects (node_index + 1)
                     (snd (spawn_loop node_index pernode cost nclients dataloader_cost
                             training_cost client_effects 0 client_id)))
      else Some [])"
  by pat_completeness auto
termination
proof (relation "measure (\<lambda>(pernode, cost, nclients, dl, tc, eff, node_index, client_id).
                   nat (nclients - client_id))")
  show "wf (measure (\<lambda>(pernode, cost, nclients, dl, tc, eff, node_index, client_id).
                   nat (nclients - client_id)))"
    by simp
next
  fix pernode :: int and cost :: "real \<Rightarrow> real \<Rightarrow> real" and nclients :: int
    and dataloader_cost training_cost :: real and client_effects :: "int \<rightharpoonup> real"
    and node_index client_id :: int
  assume a: "client_id < nclients" "\<not> pernode \<le> 0"
  have grows: "cid \<le> snd (spawn_loop node bound cost nclients dataloader_cost training_cost
                           client_effects i cid)" for node bound i cid
  proof (induction node bound cost nclients dataloader_cost training_cost client_effects i cid
         rule: spawn_loop.induct)
    case (1 node bound cost nclients dataloader_cost training_cost client_effects i client_id)
    show ?case
    proof (cases "i < bound \<and> client_id < nclients")
      case True
      from "1" [OF True refl refl] True show ?thesis
        by (subst spawn_loop.simps) (simp add: Let_def case_prod_beta)
    next
      case False
      then show ?thesis
        by (subst spawn_loop.simps) auto
    qed
  qed
  from a grows [of "client_id + 1" node_index pernode 1]
  have "client_id < snd (spawn_loop node_index pernode cost nclients dataloader_cost
                           training_cost client_effects 0 client_id)"
    by (subst spawn_loop.simps) (simp add: Let_def case_prod_beta)
  with a show "((pernode, cost, nclients, dataloader_cost, training_cost, client_effects,
           node_index + 1,
           snd (spawn_loop node_index pernode cost nclients dataloader_cost training_cost
                  client_effects 0 client_id)),
          pernode, cost, nclients, dataloader_cost, training_cost, client_effects,
          node_index, client_id)
         \<in> measure (\<lambda>(pernode, cost, nclients, dl, tc, eff, node_index, client_id).
                   nat (nclients - client_id))"
    by simp
qed

declare other_nodes.simps [simp del]

text \<open>The client actors that \<^verbatim>\<open>main\<close> of \<^verbatim>\<open>FedAvg.cpp\<close> creates.\<close>

definition FedAvg_main ::
  "int \<Rightarrow> int \<Rightarrow> real \<Rightarrow> real \<Rightarrow> (int \<rightharpoonup> real) \<Rightarrow> spawn list option" where
  "FedAvg_main num_nodes nclients_pernode dataloader_cost training_cost client_effects =
     (let nclients = num_nodes * nclients_pernode - 1;
          (node1, client_id) =
             spawn_loop 1 (nclients_pernode - 1) (\<lambda>tc multiplier. tc * (8 / 10) * multiplier)
               nclients dataloader_cost training_cost client_effects 0 0
      in map_option ((@) node1)
           (other_nodes nclients_pernode (\<lambda>tc multiplier. tc * multiplier) nclients
              dataloader_cost training_cost client_effects 2 client_id))"

text \<open>The client actors that \<^verbatim>\<open>main\<close> of \<^verbatim>\<open>FedCompass.cpp\<close> creates.\<close>

definition FedCompass_main ::
  "int \<Rightarrow> int \<Rightarrow> real \<Rightarrow> real \<Rightarrow> (int \<rightharpoonup> real) \<Rightarrow> spawn list option" where
  "FedCompass_main num_nodes num_clients_per_node dataloader_cost per_step_training_cost
       client_effects =
     (let num_clients = num_nodes * num_clients_per_node - 1;
          (node1, client_id) =
             spawn_loop 1 (num_clients_per_node - 1) (\<lambda>tc multiplier. tc * multiplier)
               num_clients dataloader_cost per_step_training_cost client_effects 0 0
      in map_option ((@) node1)
           (other_nodes num_clients_per_node (\<lambda>tc multiplier. tc * multiplier) num_clients
              dataloader_cost per_step_training_cost client_effects 2 client_id))"


text \<open>What an actor creation is observed by: node, client, training cost.\<close>

definition spawn_summary :: "spawn \<Rightarrow> int \<times> int \<times> real" where
  "spawn_summary a = (spawn_node a, spawn_client a, spawn_training_cost a)"

subsection \<open>FedAvg: the server and the client loops\<close>

text \<open>
  The mailbox operations of the \<^verbatim>\<open>server\<close> of \<^verbatim>\<open>FedAvg.cpp\<close>, in program order: \<open>Put i x\<close>
  is \<^verbatim>\<open>mailboxes[i]->put(new double(x), ...)\<close> and \<open>Get\<close> is a \<^verbatim>\<open>get\<close> on the server's own
  mailbox. The client count is a natural number.
\<close>

datatype mailbox_op = Put nat real | Get

text \<open>One round: a model token for every client, then \<^verbatim>\<open>client_count\<close> replies.\<close>

definition FedAvg_round :: "nat \<Rightarrow> mailbox_op list" where
  "FedAvg_round client_count = map (\<lambda>i. Put i 1) [0..<client_count] @ replicate client_count Get"

text \<open>The loop \<^verbatim>\<open>for (int round = 0; round < epoch_count; round++)\<close>.\<close>

function FedAvg_rounds :: "nat \<Rightarrow> int \<Rightarrow> int \<Rightarrow> mailbox_op list" where
  "FedAvg_rounds client_count epoch_count round_no =
     (if round_no < epoch_count
      then FedAvg_round client_count @ FedAvg_rounds client_count epoch_count (round_no + 1)
      else [])"
  by pat_completeness auto
termination
  by (relation "measure (\<lambda>(client_count, epoch_count, round_no). nat (epoch_count - round_no))") auto

declare FedAvg_rounds.simps [simp del]

text \<open>The \<^verbatim>\<open>server\<close>: the broadcast of \<^verbatim>\<open>comm_cost\<close>, then the rounds; nothing follows
  the last round.\<close>

definition FedAvg_server :: "nat \<Rightarrow> int \<Rightarrow> real \<Rightarrow> mailbox_op list" where
  "FedAvg_server client_count epoch_count comm_cost =
     map (\<lambda>i. Put i comm_cost) [0..<client_count] @ FedAvg_rounds client_count epoch_count 0"

text \<open>The messages put on the mailbox of client \<open>i\<close>, in order.\<close>

fun inbox_of :: "nat \<Rightarrow> mailbox_op list \<Rightarrow> real list" where
  "inbox_of i [] = []"
| "inbox_of i (Put j x # ops) = (if j = i then x # inbox_of i ops else inbox_of i ops)"
| "inbox_of i (Get # ops) = inbox_of i ops"

text \<open>
  How a client actor ends when its mailbox receives exactly the given messages:
  it returns after \<open>n\<close> iterations of its loop, or it waits forever in the \<^verbatim>\<open>get\<close> of the
  bootstrap message, or in the \<^verbatim>\<open>get\<close> that opens iteration \<open>i\<close> (counted from 0).
\<close>

datatype client_end = Returned int | Blocked_bootstrap | Blocked_in int

text \<open>The loop \<^verbatim>\<open>for (int i = 0; i < num_epochs + 1; i++)\<close> of the FedAvg \<^verbatim>\<open>client\<close>:
  receive, train, send.\<close>

function FedAvg_client_loop :: "int \<Rightarrow> int \<Rightarrow> real list \<Rightarrow> client_end" where
  "FedAvg_client_loop num_epochs i inbox =
     (if i < num_epochs + 1
      then (case inbox of
              [] \<Rightarrow> Blocked_in i
            | m # rest \<Rightarrow> FedAvg_client_loop num_epochs (i + 1) rest)
      else Returned i)"
  by pat_completeness auto
termination
  by (relation "measure (\<lambda>(num_epochs, i, inbox). nat (num_epochs + 1 - i))") auto

declare FedAvg_client_loop.simps [simp del]

definition FedAvg_client :: "int \<Rightarrow> real list \<Rightarrow> client_end" where
  "FedAvg_client num_epochs inbox =
     (case inbox of
        [] \<Rightarrow> Blocked_bootstrap
      | comm_cost # rest \<Rightarrow> FedAvg_client_loop num_epochs 0 rest)"

section \<open>Straggler rules\<close>

subsection \<open>JSON values\<close>

text \<open>
  The values of \<^verbatim>\<open>nlohmann::json\<close>: an object is the list of its members, a number is an
  integer (signed or unsigned, 64 bits) or a float.
\<close>

datatype json =
  JNull | JBool bool | JInt int | JFloat real | JString string
  | JArray "json list" | JObject "(string \<times> json) list"

text \<open>\<^verbatim>\<open>j.contains(key)\<close> (false on a value that is no object) and \<^verbatim>\<open>j[key]\<close>.\<close>

definition field :: "json \<Rightarrow> string \<Rightarrow> json option" where
  "field j key = (case j of JObject members \<Rightarrow> map_of members key | _ \<Rightarrow> None)"

definition contains :: "json \<Rightarrow> string \<Rightarrow> bool" where
  "contains j key \<longleftrightarrow> field j key \<noteq> None"

definition is_number_integer :: "json \<Rightarrow> bool" where
  "is_number_integer j = (case j of JInt i \<Rightarrow> True | _ \<Rightarrow> False)"

text \<open>\<^verbatim>\<open>get<int>()\<close> on an integer: the 64-bit value is converted to a 32-bit \<^verbatim>\<open>int\<close>.\<close>

definition to_int32 :: "int \<Rightarrow> int" where
  "to_int32 i = sint (word_of_int i :: 32 word)"

definition get_int :: "json \<Rightarrow> int" where
  "get_int j = (case j of JInt i \<Rightarrow> to_int32 i | _ \<Rightarrow> 0)"

text \<open>
  What stops \<^verbatim>\<open>parse_client_effects\<close>: one constructor for each \<^verbatim>\<open>xbt_assert\<close>, in the
  order of the source, and \<open>Type_error\<close> for the exception \<^verbatim>\<open>type_error.302\<close> that
  \<^verbatim>\<open>get<double>()\<close> throws on a value that is no number (a boolean too: only the
  conversions to arithmetic types other than the library's own number types take a
  boolean). Nothing catches the exception, and the program stops.
\<close>

datatype config_error =
  Not_an_array | No_effect | Type_error | Effect_not_positive | Invalid_client int
  | Client_not_integer | Clients_not_array | Clients_entry_not_integer
  | Range_array_size | Range_entries_not_integer | Range_not_object
  | Range_without_start_end | Range_start_end_not_integer | Range_start_after_end
  | No_target

definition get_double :: "json \<Rightarrow> config_error + real" where
  "get_double j =
     (case j of
        JInt i \<Rightarrow> Inr (real_of_int i)
      | JFloat x \<Rightarrow> Inr x
      | _ \<Rightarrow> Inl Type_error)"

text \<open>Sequencing of steps that may stop with an error.\<close>

definition and_then :: "'e + 'a \<Rightarrow> ('a \<Rightarrow> 'e + 'b) \<Rightarrow> 'e + 'b" where
  "and_then r f = (case r of Inl e \<Rightarrow> Inl e | Inr x \<Rightarrow> f x)"

subsection \<open>The parser\<close>

text \<open>The lambda \<^verbatim>\<open>apply_to_client\<close>, on the pair of the map \<^verbatim>\<open>effects\<close> and the flag
  \<^verbatim>\<open>applied\<close>.\<close>

definition apply_to_client ::
  "int \<Rightarrow> real \<Rightarrow> int \<Rightarrow> (int \<rightharpoonup> real) \<times> bool \<Rightarrow> config_error + (int \<rightharpoonup> real) \<times> bool" where
  "apply_to_client total_clients effect client_id st =
     (if client_id \<ge> 0 \<and> client_id < total_clients
      then Inr (case fst st client_id of
                  None \<Rightarrow> (fst st)(client_id \<mapsto> effect)
                | Some m \<Rightarrow> (fst st)(client_id \<mapsto> m * effect),
                True)
      else Inl (Invalid_client client_id))"

text \<open>The loop over the entries of \<^verbatim>\<open>"clients"\<close>.\<close>

fun apply_clients ::
  "int \<Rightarrow> real \<Rightarrow> json list \<Rightarrow> (int \<rightharpoonup> real) \<times> bool \<Rightarrow> config_error + (int \<rightharpoonup> real) \<times> bool" where
  "apply_clients total_clients effect [] st = Inr st"
| "apply_clients total_clients effect (client_val # vals) st =
     (if is_number_integer client_val
      then and_then (apply_to_client total_clients effect (get_int client_val) st)
             (apply_clients total_clients effect vals)
      else Inl Clients_entry_not_integer)"

text \<open>The loop \<^verbatim>\<open>for (int client = start_client; client <= end_client; ++client)\<close>.\<close>

function apply_range ::
  "int \<Rightarrow> real \<Rightarrow> int \<Rightarrow> int \<Rightarrow> (int \<rightharpoonup> real) \<times> bool \<Rightarrow> config_error + (int \<rightharpoonup> real) \<times> bool" where
  "apply_range total_clients effect client end_client st =
     (if client \<le> end_client
      then and_then (apply_to_client total_clients effect client st)
             (apply_range total_clients effect (client + 1) end_client)
      else Inr st)"
  by pat_completeness auto
termination
  by (relation "measure (\<lambda>(total_clients, effect, client, end_client, st).
                  nat (end_client + 1 - client))") auto

declare apply_range.simps [simp del]

text \<open>The bounds of \<^verbatim>\<open>"range"\<close>: a two-element array or an object with \<^verbatim>\<open>start\<close> and
  \<^verbatim>\<open>end\<close>.\<close>

definition range_bounds :: "json \<Rightarrow> config_error + int \<times> int" where
  "range_bounds range_val =
     (case range_val of
        JArray vals \<Rightarrow>
          if length vals \<noteq> 2 then Inl Range_array_size
          else if \<not> (is_number_integer (vals ! 0) \<and> is_number_integer (vals ! 1))
          then Inl Range_entries_not_integer
          else Inr (get_int (vals ! 0), get_int (vals ! 1))
      | JObject members \<Rightarrow>
          if \<not> (contains range_val ''start'' \<and> contains range_val ''end'')
          then Inl Range_without_start_end
          else (case (field range_val ''start'', field range_val ''end'') of
                  (Some a, Some b) \<Rightarrow>
                    if \<not> (is_number_integer a \<and> is_number_integer b)
                    then Inl Range_start_end_not_integer
                    else Inr (get_int a, get_int b)
                | _ \<Rightarrow> Inl Range_without_start_end)
      | _ \<Rightarrow> Inl Range_not_object)"

text \<open>The body of the loop over the rules.\<close>

definition apply_rule ::
  "int \<Rightarrow> json \<Rightarrow> (int \<rightharpoonup> real) \<Rightarrow> config_error + (int \<rightharpoonup> real)" where
  "apply_rule total_clients rule effects =
     (case field rule ''effect'' of
        None \<Rightarrow> Inl No_effect
      | Some effect_val \<Rightarrow>
          and_then (get_double effect_val) (\<lambda>effect.
            if \<not> effect > 0 then Inl Effect_not_positive
            else
              and_then
                (case field rule ''client'' of
                   None \<Rightarrow> Inr (effects, False)
                 | Some client_val \<Rightarrow>
                     if is_number_integer client_val
                     then apply_to_client total_clients effect (get_int client_val)
                            (effects, False)
                     else Inl Client_not_integer) (\<lambda>st1.
              and_then
                (case field rule ''clients'' of
                   None \<Rightarrow> Inr st1
                 | Some clients_val \<Rightarrow>
                     (case clients_val of
                        JArray vals \<Rightarrow> apply_clients total_clients effect vals st1
                      | _ \<Rightarrow> Inl Clients_not_array)) (\<lambda>st2.
              and_then
                (case field rule ''range'' of
                   None \<Rightarrow> Inr st2
                 | Some range_val \<Rightarrow>
                     and_then (range_bounds range_val) (\<lambda>(start_client, end_client).
                       if \<not> start_client \<le> end_client then Inl Range_start_after_end
                       else apply_range total_clients effect start_client end_client st2))
                (\<lambda>st3. if snd st3 then Inr (fst st3) else Inl No_target)))))"

fun apply_rules ::
  "int \<Rightarrow> json list \<Rightarrow> (int \<rightharpoonup> real) \<Rightarrow> config_error + (int \<rightharpoonup> real)" where
  "apply_rules total_clients [] effects = Inr effects"
| "apply_rules total_clients (rule # rules) effects =
     and_then (apply_rule total_clients rule effects) (apply_rules total_clients rules)"

text \<open>\<^verbatim>\<open>parse_client_effects\<close>.\<close>

definition parse_client_effects :: "json \<Rightarrow> int \<Rightarrow> config_error + (int \<rightharpoonup> real)" where
  "parse_client_effects rules total_clients =
     (case rules of
        JNull \<Rightarrow> Inr Map.empty
      | JArray rs \<Rightarrow> apply_rules total_clients rs Map.empty
      | _ \<Rightarrow> Inl Not_an_array)"

subsection \<open>What a rule says\<close>

text \<open>The client ids a rule lists, in the order of application: the id of \<^verbatim>\<open>"client"\<close>,
  the entries of \<^verbatim>\<open>"clients"\<close>, the ids of \<^verbatim>\<open>"range"\<close>. An id listed twice occurs twice.\<close>

definition client_ids :: "json \<Rightarrow> int list" where
  "client_ids rule =
     (case field rule ''client'' of None \<Rightarrow> [] | Some client_val \<Rightarrow> [get_int client_val])"

definition clients_ids :: "json \<Rightarrow> int list" where
  "clients_ids rule =
     (case field rule ''clients'' of Some (JArray vals) \<Rightarrow> map get_int vals | _ \<Rightarrow> [])"

definition range_ids :: "json \<Rightarrow> int list" where
  "range_ids rule =
     (case field rule ''range'' of
        None \<Rightarrow> []
      | Some range_val \<Rightarrow>
          (case range_bounds range_val of Inl e \<Rightarrow> [] | Inr (a, b) \<Rightarrow> [a..b]))"

definition rule_targets :: "json \<Rightarrow> int list" where
  "rule_targets rule = client_ids rule @ clients_ids rule @ range_ids rule"

definition rule_effect :: "json \<Rightarrow> real" where
  "rule_effect rule =
     (case field rule ''effect'' of
        None \<Rightarrow> 1
      | Some effect_val \<Rightarrow> (case get_double effect_val of Inl e \<Rightarrow> 1 | Inr x \<Rightarrow> x))"

text \<open>The checks that the parser makes on a rule, one predicate for each phase.\<close>

definition effect_ok :: "json \<Rightarrow> bool" where
  "effect_ok rule =
     (case field rule ''effect'' of
        None \<Rightarrow> False
      | Some effect_val \<Rightarrow> (case get_double effect_val of Inl e \<Rightarrow> False | Inr x \<Rightarrow> x > 0))"

definition client_ok :: "json \<Rightarrow> bool" where
  "client_ok rule =
     (case field rule ''client'' of None \<Rightarrow> True | Some client_val \<Rightarrow> is_number_integer client_val)"

definition clients_ok :: "json \<Rightarrow> bool" where
  "clients_ok rule =
     (case field rule ''clients'' of
        None \<Rightarrow> True
      | Some (JArray vals) \<Rightarrow> list_all is_number_integer vals
      | Some _ \<Rightarrow> False)"

definition range_ok :: "json \<Rightarrow> bool" where
  "range_ok rule =
     (case field rule ''range'' of
        None \<Rightarrow> True
      | Some range_val \<Rightarrow>
          (case range_bounds range_val of Inl e \<Rightarrow> False | Inr (a, b) \<Rightarrow> a \<le> b))"

definition in_range :: "int \<Rightarrow> int \<Rightarrow> bool" where
  "in_range total_clients client_id \<longleftrightarrow> 0 \<le> client_id \<and> client_id < total_clients"

definition rule_passes :: "int \<Rightarrow> json \<Rightarrow> bool" where
  "rule_passes total_clients rule \<longleftrightarrow>
     effect_ok rule \<and> client_ok rule \<and> clients_ok rule \<and> range_ok rule
     \<and> list_all (in_range total_clients) (rule_targets rule)
     \<and> rule_targets rule \<noteq> []"

text \<open>
  The rules that the parser accepts, said without the parser and its helpers. The effect
  is a JSON number (an integer or a float, no boolean and no string) greater than 0.
\<close>

definition positive_effect :: "json \<Rightarrow> real option" where
  "positive_effect rule =
     (case field rule ''effect'' of
        Some (JInt i) \<Rightarrow> if 0 < i then Some (real_of_int i) else None
      | Some (JFloat x) \<Rightarrow> if 0 < x then Some x else None
      | _ \<Rightarrow> None)"

text \<open>A client id is a JSON integer, read as a 32-bit \<^verbatim>\<open>int\<close>.\<close>

fun int32_of :: "json \<Rightarrow> int option" where
  "int32_of (JInt i) = Some (to_int32 i)"
| "int32_of _ = None"

fun ids_of_list :: "json list \<Rightarrow> int list option" where
  "ids_of_list [] = Some []"
| "ids_of_list (v # vs) =
     (case (int32_of v, ids_of_list vs) of
        (Some i, Some ids) \<Rightarrow> Some (i # ids)
      | _ \<Rightarrow> None)"

text \<open>The ids that each selector lists when it is well formed: \<^verbatim>\<open>"client"\<close> is an
  integer; \<^verbatim>\<open>"clients"\<close> is an array of integers; \<^verbatim>\<open>"range"\<close> is an array of two
  integers or an object with the integers \<^verbatim>\<open>start\<close> and \<^verbatim>\<open>end\<close>, the first at most the
  second.\<close>

definition ids_of_client :: "json \<Rightarrow> int list option" where
  "ids_of_client v = map_option (\<lambda>i. [i]) (int32_of v)"

definition ids_of_clients :: "json \<Rightarrow> int list option" where
  "ids_of_clients v = (case v of JArray vals \<Rightarrow> ids_of_list vals | _ \<Rightarrow> None)"

fun range_pair :: "json \<Rightarrow> (json \<times> json) option" where
  "range_pair (JArray [a, b]) = Some (a, b)"
| "range_pair (JObject members) =
     (case (map_of members ''start'', map_of members ''end'') of
        (Some a, Some b) \<Rightarrow> Some (a, b)
      | _ \<Rightarrow> None)"
| "range_pair _ = None"

definition ids_of_range :: "json \<Rightarrow> int list option" where
  "ids_of_range v =
     (case range_pair v of
        None \<Rightarrow> None
      | Some (a, b) \<Rightarrow>
          (case (int32_of a, int32_of b) of
             (Some lo, Some hi) \<Rightarrow> if lo \<le> hi then Some [lo..hi] else None
           | _ \<Rightarrow> None))"

text \<open>A selector that the rule does not carry lists nobody.\<close>

definition selected :: "json \<Rightarrow> string \<Rightarrow> (json \<Rightarrow> int list option) \<Rightarrow> int list option" where
  "selected rule key ids = (case field rule key of None \<Rightarrow> Some [] | Some v \<Rightarrow> ids v)"

text \<open>The ids that the rule lists, \<open>None\<close> when a selector is malformed.\<close>

definition listed :: "json \<Rightarrow> int list option" where
  "listed rule =
     (case (selected rule ''client'' ids_of_client, selected rule ''clients'' ids_of_clients,
            selected rule ''range'' ids_of_range) of
        (Some a, Some b, Some c) \<Rightarrow> Some (a @ b @ c)
      | _ \<Rightarrow> None)"

definition rule_valid :: "int \<Rightarrow> json \<Rightarrow> bool" where
  "rule_valid total_clients rule \<longleftrightarrow>
     positive_effect rule \<noteq> None
     \<and> (case listed rule of
          None \<Rightarrow> False
        | Some ids \<Rightarrow> ids \<noteq> [] \<and> list_all (in_range total_clients) ids)"

text \<open>The number of selectors among \<^verbatim>\<open>client\<close>, \<^verbatim>\<open>clients\<close> and \<^verbatim>\<open>range\<close> that a rule
  carries.\<close>

definition selector_count :: "json \<Rightarrow> nat" where
  "selector_count rule =
     length (filter (contains rule) [''client'', ''clients'', ''range''])"

text \<open>Applying a list of ids to the map, as \<^verbatim>\<open>apply_to_client\<close> does one by one.\<close>

definition multiply_effect :: "real \<Rightarrow> int \<Rightarrow> (int \<rightharpoonup> real) \<Rightarrow> (int \<rightharpoonup> real)" where
  "multiply_effect effect client_id effects =
     (case effects client_id of
        None \<Rightarrow> effects(client_id \<mapsto> effect)
      | Some m \<Rightarrow> effects(client_id \<mapsto> m * effect))"


text \<open>What \<^verbatim>\<open>main\<close> computes for a client: the parse, then \<^verbatim>\<open>client_multiplier\<close>.\<close>

definition straggler_multiplier :: "json \<Rightarrow> int \<Rightarrow> int \<Rightarrow> config_error + real" where
  "straggler_multiplier rules total_clients client_id =
     (case parse_client_effects rules total_clients of
        Inl e \<Rightarrow> Inl e
      | Inr effects \<Rightarrow> Inr (client_multiplier effects client_id))"

text \<open>Scenario S3, a rule that lists a client twice, a rule with two selectors, and a rule
  whose only selector lists nobody.\<close>

definition rules_S3 :: "json list" where
  "rules_S3 =
     [JObject [(''range'', JArray [JInt 0, JInt 4]), (''effect'', JInt 2)],
      JObject [(''clients'', JArray [JInt 2, JInt 3]), (''effect'', JInt 3)]]"

definition rule_twice :: json where
  "rule_twice = JObject [(''clients'', JArray [JInt 2, JInt 2]), (''effect'', JInt 2)]"

definition rule_two_selectors :: json where
  "rule_two_selectors =
     JObject [(''effect'', JFloat (3 / 2)), (''client'', JInt 0), (''clients'', JArray [JInt 1])]"

definition rule_empty_clients :: json where
  "rule_empty_clients = JObject [(''effect'', JInt 2), (''clients'', JArray [])]"

definition rule_no_selector :: json where
  "rule_no_selector = JObject [(''effect'', JInt 2)]"

definition rule_boolean_effect :: json where
  "rule_boolean_effect = JObject [(''effect'', JBool True), (''client'', JInt 0)]"

definition rule_wide_id :: json where
  "rule_wide_id = JObject [(''effect'', JInt 2), (''client'', JInt 4294967296)]"

subsection \<open>Deadlines of the groups\<close>

text \<open>The property of the deadlines of a group created at time \<open>created\<close>.\<close>

definition deadline_monotone :: "real \<Rightarrow> GOA \<Rightarrow> bool" where
  "deadline_monotone created g \<longleftrightarrow>
     expected_arrival_time g \<le> latest_arrival_time g
     \<and> created \<le> expected_arrival_time g \<and> created \<le> latest_arrival_time g"

definition deadlines :: "GOA \<Rightarrow> real \<times> real" where
  "deadlines g = (expected_arrival_time g, latest_arrival_time g)"

text \<open>The live groups with their deadlines, and with their members.\<close>

definition group_deadlines :: "SchedulerCompass \<Rightarrow> (int \<times> real \<times> real) list" where
  "group_deadlines s = map (\<lambda>(gid, g). (gid, deadlines g)) (group_list s)"

definition group_members :: "SchedulerCompass \<Rightarrow> (int \<times> int list \<times> int list) list" where
  "group_members s = map (\<lambda>(gid, g). (gid, clients g, arrived_clients g)) (group_list s)"

text \<open>Whether every live group has monotone deadlines for the creation time \<open>created\<close>.\<close>

definition deadlines_hold :: "real \<Rightarrow> SchedulerCompass \<Rightarrow> bool" where
  "deadlines_hold created s = list_all (deadline_monotone created) (map snd (group_list s))"

text \<open>
  The state in which \<^verbatim>\<open>_single_update\<close> calls \<^verbatim>\<open>_assign_group\<close> for a client without a
  group whose reply \<^verbatim>\<open>update\<close> receives in state \<open>s\<close>: after
  \<^verbatim>\<open>_recv_local_model_from_client\<close>, \<^verbatim>\<open>_record_info\<close>, the increment of \<^verbatim>\<open>iter\<close> and
  \<^verbatim>\<open>server->update()\<close>.
\<close>

definition before_assign ::
  "(nat \<Rightarrow> real) \<Rightarrow> int \<Rightarrow> SchedulerCompass \<Rightarrow> SchedulerCompass option" where
  "before_assign clk client_idx s =
     do {
       s1 \<leftarrow> record_info client_idx (recv_local_model_from_client clk client_idx s);
       let s2 = ServerFedCompass_update clk (s1\<lparr>iter := iter s1 + 1\<rparr>);
       ci \<leftarrow> client_info s2 client_idx;
       Some (s2\<lparr>client_info := (client_info s2)(client_idx \<mapsto>
                ci\<lparr>step := global_step (server s2)\<rparr>)\<rparr>)
     }"

text \<open>In the run above: client 1 is about to create group 1, and client 2 is about to join
  it.\<close>

definition ex_before_create :: "SchedulerCompass option" where
  "ex_before_create = do { s \<leftarrow> ex_run [Return 0, Deadline 0]; before_assign ex_clk 1 s }"

definition ex_before_join :: "SchedulerCompass option" where
  "ex_before_join =
     do { s \<leftarrow> ex_run [Return 0, Deadline 0, Return 1]; before_assign ex_clk 2 s }"

definition ex_created :: "(real \<times> real) option" where
  "ex_created =
     do {
       s \<leftarrow> ex_before_create;
       s' \<leftarrow> create_group 1 s;
       g \<leftarrow> group_of_arrival s' (group_counter s);
       Some (deadlines g)
     }"

definition ex_joined :: "(bool \<times> (int \<times> real \<times> real) list \<times> (int \<times> real \<times> real) list) option" where
  "ex_joined =
     do {
       s \<leftarrow> ex_before_join;
       (joined, s') \<leftarrow> join_group 2 s;
       Some (joined, group_deadlines s, group_deadlines s')
     }"

section \<open>The FedCompass server and client actors\<close>













section \<open>Client exclusivity\<close>



















section \<open>Theorems\<close>

text \<open>
  C4 (smoothing law). With \<^verbatim>\<open>SPEED_MOMENTUM\<close> = 0.9 as the constructor sets it, a
  successful \<^verbatim>\<open>_record_info\<close> sets the client's speed to the sample on the first
  observation, and to 0.1 times the old speed plus 0.9 times the sample on every later
  one. Doubles are taken as reals, so the law is exact.
\<close>

theorem record_info_smoothing:
  assumes "SPEED_MOMENTUM s = 9 / 10" and "record_info c s = Some s'"
  shows "speed_of c s' =
           (case speed_of c s of
              None \<Rightarrow> Some (sample_of c s)
            | Some v \<Rightarrow> Some (1 / 10 * v + 9 / 10 * sample_of c s))"
proof (cases "client_info s c")
  case None
  with assms(2) show ?thesis
    by (auto simp: record_info_def speed_of_def sample_of_def Let_def ClientInfo_new_def
             split: if_splits)
next
  case (Some ci)
  with assms(2) have "speed_of c s' =
      Some ((1 - SPEED_MOMENTUM s) * speed ci + SPEED_MOMENTUM s * sample_of c s)"
    by (auto simp: record_info_def speed_of_def sample_of_def Let_def split: if_splits)
  also have "(1 - SPEED_MOMENTUM s) * speed ci + SPEED_MOMENTUM s * sample_of c s
      = 1 / 10 * speed ci + 9 / 10 * sample_of c s"
    unfolding assms(1) by simp
  finally show ?thesis using Some by (simp add: speed_of_def)
qed

theorem record_info_smoothing_witness:
  "smoothing_run = Some (Some 2, Some (19 / 5), Some (199 / 50))"
proof -
  obtain s0 where s0: "SchedulerCompass_new 10 3 5 {0, 1, 2} (1 / 5) (3 / 2) = Some s0"
    by (simp add: SchedulerCompass_new_def static_cast_int_def)
  then have m0: "SPEED_MOMENTUM s0 = 9 / 10" and n0: "num_clients s0 = 3"
    and M0: "max_local_steps s0 = 10" and c0: "client_info s0 = Map.empty"
    by (auto simp: SchedulerCompass_new_def static_cast_int_def)
  obtain s1 where s1: "record_info 0 (s0\<lparr>clock := 20\<rparr>) = Some s1"
    by (simp add: record_info_def n0 M0 c0)
  have v1: "speed_of 0 s1 = Some 2"
    using record_info_smoothing [OF _ s1] by (simp add: m0 speed_of_def sample_of_def c0 M0)
  have k1: "SPEED_MOMENTUM s1 = 9 / 10" "num_clients s1 = 3"
    using s1 by (auto simp: record_info_def n0 M0 c0 m0)
  obtain ci1 where i1: "client_info s1 0 = Some ci1" and sp1: "speed ci1 = 2"
    using v1 by (auto simp: speed_of_def)
  obtain s2 where s2: "record_info 0 (returned 0 5 20 40 s1) = Some s2"
    by (simp add: record_info_def returned_def k1 i1)
  have v2: "speed_of 0 s2 = Some (19 / 5)"
    using record_info_smoothing [OF _ s2]
    by (simp add: k1 returned_def speed_of_def sample_of_def i1 sp1)
  have k2: "SPEED_MOMENTUM s2 = 9 / 10" "num_clients s2 = 3"
    using s2 by (auto simp: record_info_def returned_def k1 i1)
  obtain ci2 where i2: "client_info s2 0 = Some ci2" and sp2: "speed ci2 = 19 / 5"
    using v2 by (auto simp: speed_of_def)
  obtain s3 where s3: "record_info 0 (returned 0 5 40 60 s2) = Some s3"
    by (simp add: record_info_def returned_def k2 i2)
  have v3: "speed_of 0 s3 = Some (199 / 50)"
    using record_info_smoothing [OF _ s3]
    by (simp add: k2 returned_def speed_of_def sample_of_def i2 sp2)
  show ?thesis
    by (simp add: smoothing_run_def s0 s1 s2 s3 v1 v2 v3)
qed

subsection \<open>Step bounds of dispatched models\<close>

lemma join_scan_range:
  "join_scan t cio lo hi gs acc = Some acc' \<Longrightarrow>
   (fst acc \<noteq> -1 \<longrightarrow> lo \<le> snd acc \<and> snd acc \<le> hi) \<Longrightarrow>
   (fst acc' \<noteq> -1 \<longrightarrow> lo \<le> snd acc' \<and> snd acc' \<le> hi)"
proof (induction gs arbitrary: acc)
  case Nil
  then show ?case by simp
next
  case (Cons p gs)
  obtain gid g where p: "p = (gid, g)" by (cases p)
  obtain ag as where acc: "acc = (ag, as)" by (cases acc)
  from Cons.prems(1) show ?case
    unfolding p acc
    apply (simp split: bind_splits if_splits)
    using Cons.IH Cons.prems(2) acc apply fastforce+
    done
qed

lemma join_group_True:
  assumes "join_group c s = Some (True, s')"
  shows "cfg s' = cfg s \<and> sent s' = sent s \<and> client_steps_ok s' c
         \<and> (\<forall>c'. c' \<noteq> c \<longrightarrow> client_info s' c' = client_info s c')"
  using assms join_scan_range [of "clock s" "client_info s c" "min_local_steps s"
      "max_local_steps_bound s" "group_list s" "(-1, -1)"]
  by (auto simp: join_group_def Let_def cfg_def client_steps_ok_def steps_in_range_def
           split: bind_splits if_splits prod.splits)

lemma join_group_False: "join_group c s = Some (False, s') \<Longrightarrow> s' = s"
  by (auto simp: join_group_def Let_def split: bind_splits if_splits prod.splits)

lemma create_scan_range:
  "create_scan info t cio M gs a = Some a' \<Longrightarrow> -1 \<le> a \<Longrightarrow> a \<le> M \<Longrightarrow> -1 \<le> a' \<and> a' \<le> M"
proof (induction gs arbitrary: a)
  case Nil
  then show ?case by simp
next
  case (Cons p gs)
  obtain gid g where p: "p = (gid, g)" by (cases p)
  from Cons.prems(1) consider "create_scan info t cio M gs a = Some a'"
    | k where "k \<le> M" "create_scan info t cio M gs (max a k) = Some a'"
    unfolding p by (auto simp: Let_def split: bind_splits if_splits)
  then show ?case
  proof cases
    case 1
    then show ?thesis using Cons.IH Cons.prems by blast
  next
    case 2
    then show ?thesis using Cons.IH [of "max a k"] Cons.prems by auto
  qed
qed

lemma create_group_steps:
  assumes "create_group c s = Some s'" and "bounds_ok s"
  shows "cfg s' = cfg s \<and> sent s' = sent s \<and> client_steps_ok s' c
         \<and> (\<forall>c'. c' \<noteq> c \<longrightarrow> client_info s' c' = client_info s c')"
proof -
  from assms(1) obtain a ci where
    a: "create_scan (client_info s) (clock s) (client_info s c) (max_local_steps s)
          (group_list s) (-1) = Some a"
    and ci: "client_info s c = Some ci"
    by (auto simp: create_group_def Let_def split: bind_splits)
  from create_scan_range [OF a] assms(2) have r: "-1 \<le> a \<and> a \<le> max_local_steps s"
    by (simp add: bounds_ok_def)
  from assms(1) a ci r assms(2) show ?thesis
    by (auto simp: create_group_def Let_def cfg_def client_steps_ok_def steps_in_range_def
          bounds_ok_def split: if_splits)
qed

lemma assign_group_steps:
  assumes "assign_group c s = Some s'" and "bounds_ok s"
  shows "cfg s' = cfg s \<and> sent s' = sent s \<and> client_steps_ok s' c
         \<and> (\<forall>c'. c' \<noteq> c \<longrightarrow> client_info s' c' = client_info s c')"
proof (cases "group_list s = []")
  case True
  with assms show ?thesis
    by (auto simp: assign_group_def Let_def cfg_def client_steps_ok_def steps_in_range_def
          bounds_ok_def split: bind_splits)
next
  case False
  with assms(1) obtain joined s1 where j: "join_group c s = Some (joined, s1)"
    and r: "if joined then s' = s1 else create_group c s1 = Some s'"
    by (auto simp: assign_group_def Let_def split: bind_splits if_splits)
  show ?thesis
  proof (cases joined)
    case True
    with j r join_group_True [of c s s'] show ?thesis by simp
  next
    case False
    with j r join_group_False [of c s s1] create_group_steps [of c s s'] assms(2)
    show ?thesis by simp
  qed
qed

lemma client_steps_ok_cong:
  "cfg s' = cfg s \<Longrightarrow> map_option local_steps (client_info s' c) = map_option local_steps (client_info s c)
   \<Longrightarrow> client_steps_ok s' c = client_steps_ok s c"
  by (auto simp: client_steps_ok_def split: option.splits)

lemma bounds_ok_cong: "cfg s' = cfg s \<Longrightarrow> bounds_ok s' = bounds_ok s"
  by (auto simp: bounds_ok_def cfg_def)

lemma sent_ok_cong: "cfg s' = cfg s \<Longrightarrow> sent s' = sent s \<Longrightarrow> sent_ok s' = sent_ok s"
  by (auto simp: sent_ok_def)

lemma assign_group_keeps:
  assumes "assign_group c s = Some s'" and "bounds_ok s" and "client_steps_ok s c'"
  shows "client_steps_ok s' c'"
proof (cases "c' = c")
  case True
  with assign_group_steps [OF assms(1,2)] show ?thesis by simp
next
  case False
  with assign_group_steps [OF assms(1,2)]
  have e: "client_info s' c' = client_info s c'" and c: "cfg s' = cfg s" by auto
  show ?thesis using assms(3) unfolding client_steps_ok_def e c .
qed

lemma assign_all_steps:
  "assign_all cs s = Some s' \<Longrightarrow> bounds_ok s \<Longrightarrow>
   cfg s' = cfg s \<and> sent s' = sent s \<and> (\<forall>c \<in> set cs. client_steps_ok s' c)
   \<and> (\<forall>c. client_steps_ok s c \<longrightarrow> client_steps_ok s' c)"
proof (induction cs arbitrary: s)
  case Nil
  then show ?case by simp
next
  case (Cons c cs)
  from Cons.prems(1) obtain s1 where a: "assign_group c s = Some s1"
    and r: "assign_all cs s1 = Some s'"
    by (auto split: bind_splits)
  from assign_group_steps [OF a Cons.prems(2)]
  have c1: "cfg s1 = cfg s" and t1: "sent s1 = sent s" and k1: "client_steps_ok s1 c"
    by blast+
  from bounds_ok_cong [OF c1] Cons.prems(2) have b1: "bounds_ok s1" by simp
  from Cons.IH [OF r b1]
  have c2: "cfg s' = cfg s1" and t2: "sent s' = sent s1"
    and k2: "\<forall>c \<in> set cs. client_steps_ok s' c"
    and p2: "\<forall>c. client_steps_ok s1 c \<longrightarrow> client_steps_ok s' c"
    by blast+
  have "cfg s' = cfg s" using c2 c1 by (rule trans)
  moreover have "sent s' = sent s" using t2 t1 by (rule trans)
  moreover have "\<forall>x \<in> set (c # cs). client_steps_ok s' x"
    using k1 k2 p2 by simp
  moreover have "\<forall>x. client_steps_ok s x \<longrightarrow> client_steps_ok s' x"
    using assign_group_keeps [OF a Cons.prems(2)] p2 by blast
  ultimately show ?case by blast
qed
lemma send_model_sent:
  assumes "send_model clk c s = Some s'" and "sent_ok s" and "client_steps_ok s c"
  shows "cfg s' = cfg s \<and> sent_ok s'
         \<and> (\<forall>c'. client_steps_ok s' c' = client_steps_ok s c')"
  using assms
  by (auto simp: send_model_def send_global_model_to_client_def suspend_def Let_def
        sent_ok_def cfg_def client_steps_ok_def split: bind_splits option.splits if_splits)

lemma send_all_sent:
  "send_all clk cs s = Some s' \<Longrightarrow> sent_ok s \<Longrightarrow> \<forall>c \<in> set cs. client_steps_ok s c \<Longrightarrow>
   cfg s' = cfg s \<and> sent_ok s'"
proof (induction cs arbitrary: s)
  case Nil
  then show ?case by simp
next
  case (Cons c cs)
  from Cons.prems(1) obtain s1 where a: "send_model clk c s = Some s1"
    and r: "send_all clk cs s1 = Some s'"
    by (auto split: bind_splits)
  from send_model_sent [OF a Cons.prems(2)] Cons.prems(3)
  have h: "cfg s1 = cfg s" "sent_ok s1" "\<forall>c \<in> set cs. client_steps_ok s1 c" by auto
  from Cons.IH [OF r h(2,3)] h(1) show ?case by simp
qed

lemma server_ops_frame:
  "cfg (ServerFedCompass_update clk s) = cfg s"
  "sent (ServerFedCompass_update clk s) = sent s"
  "client_info (ServerFedCompass_update clk s) = client_info s"
  "cfg (ServerFedCompass_single_buffer clk s) = cfg s"
  "sent (ServerFedCompass_single_buffer clk s) = sent s"
  "client_info (ServerFedCompass_single_buffer clk s) = client_info s"
  "cfg (ServerFedCompass_update_all clk s) = cfg s"
  "sent (ServerFedCompass_update_all clk s) = sent s"
  "client_info (ServerFedCompass_update_all clk s) = client_info s"
  "cfg (ServerFedCompass_update_group clk g s) = cfg s"
  "sent (ServerFedCompass_update_group clk g s) = sent s"
  "client_info (ServerFedCompass_update_group clk g s) = client_info s"
  "cfg (ServerFedCompass_buffer clk g s) = cfg s"
  "sent (ServerFedCompass_buffer clk g s) = sent s"
  "client_info (ServerFedCompass_buffer clk g s) = client_info s"
  "cfg (suspend clk s) = cfg s"
  "sent (suspend clk s) = sent s"
  "client_info (suspend clk s) = client_info s"
  by (simp_all add: ServerFedCompass_update_def ServerFedCompass_single_buffer_def
        ServerFedCompass_update_all_def ServerFedCompass_update_group_def
        ServerFedCompass_buffer_def suspend_def cfg_def Let_def)

lemma dispatch_ok_cong:
  "cfg s' = cfg s \<Longrightarrow> sent s' = sent s \<Longrightarrow> dispatch_ok s' = dispatch_ok s"
  by (simp add: dispatch_ok_def bounds_ok_cong [of s' s] sent_ok_cong [of s' s])

lemma single_update_sent:
  assumes "single_update clk c b s = Some s'" and "dispatch_ok s"
  shows "cfg s' = cfg s \<and> dispatch_ok s'"
proof -
  define s1 where "s1 = (if b then ServerFedCompass_single_buffer clk s else ServerFedCompass_update clk s)"
  have f1: "cfg s1 = cfg s" "sent s1 = sent s"
    by (simp_all add: s1_def server_ops_frame)
  from assms(1) obtain ci s3 where ci: "client_info s1 c = Some ci"
    and a: "assign_group c (s1\<lparr>client_info := (client_info s1)(c \<mapsto>
                   ci\<lparr>step := global_step (server s1)\<rparr>)\<rparr>) = Some s3"
    and r: "if iter s3 < num_global_epochs s3 then send_model clk c s3 = Some s'
            else s' = ServerFedCompass_update_all clk s3"
    by (auto simp: single_update_def s1_def Let_def split: bind_splits if_splits)
  define s2 where "s2 = s1\<lparr>client_info := (client_info s1)(c \<mapsto>
                   ci\<lparr>step := global_step (server s1)\<rparr>)\<rparr>"
  have f2: "cfg s2 = cfg s" "sent s2 = sent s"
    using f1 by (simp_all add: s2_def cfg_def)
  from dispatch_ok_cong [OF f2] assms(2) have d2: "dispatch_ok s2" by simp
  from assign_group_steps [OF a [folded s2_def]] d2
  have f3: "cfg s3 = cfg s2" "sent s3 = sent s2" "client_steps_ok s3 c"
    by (auto simp: dispatch_ok_def)
  from dispatch_ok_cong [OF f3(1,2)] d2 have d3: "dispatch_ok s3" by simp
  show ?thesis
  proof (cases "iter s3 < num_global_epochs s3")
    case True
    with r have "send_model clk c s3 = Some s'" by simp
    from send_model_sent [OF this _ f3(3)] d3
    have "cfg s' = cfg s3" "sent_ok s'" by (auto simp: dispatch_ok_def)
    with f3(1) f2(1) d3 bounds_ok_cong [of s' s3] show ?thesis
      by (simp add: dispatch_ok_def)
  next
    case False
    with r have e: "s' = ServerFedCompass_update_all clk s3" by simp
    have "cfg s' = cfg s3" "sent s' = sent s3" by (simp_all add: e server_ops_frame)
    with dispatch_ok_cong [of s' s3] d3 f3(1) f2(1) show ?thesis by simp
  qed
qed

lemma mark_arrived_frame:
  "mark_arrived cs s = Some (s', ps) \<Longrightarrow> cfg s' = cfg s \<and> sent s' = sent s"
proof (induction cs arbitrary: s s' ps)
  case Nil
  then show ?case by simp
next
  case (Cons c cs)
  from Cons.prems obtain ci ps' where
    r: "mark_arrived cs (s\<lparr>client_info := (client_info s)(c \<mapsto>
          ci\<lparr>step := global_step (server s)\<rparr>)\<rparr>) = Some (s', ps')"
    by (auto split: bind_splits prod.splits)
  from Cons.IH [OF r] show ?case by (simp add: cfg_def)
qed

lemma group_aggregation_sent:
  assumes "group_aggregation clk g s = Some s'" and "dispatch_ok s"
  shows "cfg s' = cfg s \<and> dispatch_ok s'"
proof (cases "group_of_arrival s g")
  case None
  with assms show ?thesis by (simp add: group_aggregation_def)
next
  case (Some g0)
  define s1 where "s1 = ServerFedCompass_update_group clk g s"
  from assms(1) Some obtain s2 ps s4 g4 where
    m: "mark_arrived (arrived_clients g0) s1 = Some (s2, ps)"
    and a: "assign_all (map fst (sort_key snd ps))
              (s2\<lparr>group_of_arrival := (group_of_arrival s2)(g \<mapsto>
                 g0\<lparr>expected_arrival_time := 0, latest_arrival_time := 0\<rparr>)\<rparr>) = Some s4"
    and g4: "group_of_arrival s4 g = Some g4"
    and r: "let s5 = (if clients g4 = []
                      then s4\<lparr>group_of_arrival := (group_of_arrival s4)(g := None)\<rparr>
                      else s4)
            in if iter s5 < num_global_epochs s5
               then send_all clk (map fst (sort_key snd ps)) s5 = Some s'
               else s' = ServerFedCompass_update_all clk s5"
    by (auto simp: group_aggregation_def s1_def Let_def split: bind_splits if_splits)
  define cs where "cs = map fst (sort_key snd ps)"
  define s3 where "s3 = s2\<lparr>group_of_arrival := (group_of_arrival s2)(g \<mapsto>
                 g0\<lparr>expected_arrival_time := 0, latest_arrival_time := 0\<rparr>)\<rparr>"
  define s5 where "s5 = (if clients g4 = []
                      then s4\<lparr>group_of_arrival := (group_of_arrival s4)(g := None)\<rparr>
                      else s4)"
  have f1: "cfg s1 = cfg s" "sent s1 = sent s" by (simp_all add: s1_def server_ops_frame)
  from mark_arrived_frame [OF m] have f2: "cfg s2 = cfg s1" "sent s2 = sent s1" by simp_all
  have f3: "cfg s3 = cfg s" "sent s3 = sent s"
    using f1 f2 by (simp_all add: s3_def cfg_def)
  from dispatch_ok_cong [OF f3] assms(2) have d3: "dispatch_ok s3" by simp
  from assign_all_steps [OF a [folded s3_def cs_def]] d3
  have f4: "cfg s4 = cfg s3" "sent s4 = sent s3" "\<forall>c \<in> set cs. client_steps_ok s4 c"
    by (auto simp: dispatch_ok_def)
  have f5: "cfg s5 = cfg s4" "sent s5 = sent s4" "client_info s5 = client_info s4"
    by (simp_all add: s5_def cfg_def)
  have c5: "cfg s5 = cfg s" using f5(1) f4(1) f3(1) by simp
  have t5: "sent s5 = sent s" using f5(2) f4(2) f3(2) by simp
  from dispatch_ok_cong [OF c5 t5] assms(2) have d5: "dispatch_ok s5" by simp
  have k5: "\<forall>c \<in> set cs. client_steps_ok s5 c"
    using f4(3) client_steps_ok_cong [OF f5(1), of _] f5(3) by simp
  show ?thesis
  proof (cases "iter s5 < num_global_epochs s5")
    case True
    with r have "send_all clk cs s5 = Some s'" by (simp add: s5_def cs_def Let_def)
    from send_all_sent [OF this _ k5] d5 have "cfg s' = cfg s5" "sent_ok s'"
      by (auto simp: dispatch_ok_def)
    with c5 d5 bounds_ok_cong [of s' s5] show ?thesis by (simp add: dispatch_ok_def)
  next
    case False
    with r have e: "s' = ServerFedCompass_update_all clk s5" by (simp add: s5_def Let_def)
    have "cfg s' = cfg s5" "sent s' = sent s5" by (simp_all add: e server_ops_frame)
    with dispatch_ok_cong [of s' s5] d5 c5 show ?thesis by simp
  qed
qed

lemma group_update_sent:
  assumes "group_update clk c g s = Some s'" and "dispatch_ok s"
  shows "cfg s' = cfg s \<and> dispatch_ok s'"
proof -
  from assms(1) obtain grp cl where grp: "group_of_arrival s g = Some grp"
    and cl: "erase_remove (clients grp) c = Some cl"
    by (auto simp: group_update_def Let_def split: bind_splits)
  show ?thesis
  proof (cases "clock s \<ge> latest_arrival_time grp")
    case True
    define s1 where "s1 = (if cl = []
                   then s\<lparr>group_of_arrival := (group_of_arrival s)(g := None)\<rparr>
                   else s\<lparr>group_of_arrival := (group_of_arrival s)(g \<mapsto> grp\<lparr>clients := cl\<rparr>)\<rparr>)"
    from assms(1) grp cl True have r: "single_update clk c True s1 = Some s'"
      by (simp add: group_update_def Let_def s1_def)
    have f1: "cfg s1 = cfg s" "sent s1 = sent s" by (simp_all add: s1_def cfg_def)
    from dispatch_ok_cong [OF f1] assms(2) have "dispatch_ok s1" by simp
    from single_update_sent [OF r this] f1 show ?thesis by simp
  next
    case False
    define s1 where "s1 = s\<lparr>group_of_arrival := (group_of_arrival s)(g \<mapsto>
                     grp\<lparr>clients := cl, arrived_clients := arrived_clients grp @ [c]\<rparr>)\<rparr>"
    define s2 where "s2 = ServerFedCompass_buffer clk g s1"
    from assms(1) grp cl False
    have r: "if cl = [] then group_aggregation clk g s2 = Some s' else s' = s2"
      by (auto simp: group_update_def Let_def s1_def s2_def split: bind_splits if_splits)
    have f2: "cfg s2 = cfg s" "sent s2 = sent s"
      by (simp_all add: s2_def server_ops_frame) (simp_all add: s1_def cfg_def)
    from dispatch_ok_cong [OF f2] assms(2) have d2: "dispatch_ok s2" by simp
    show ?thesis
    proof (cases "cl = []")
      case True
      with r have "group_aggregation clk g s2 = Some s'" by simp
      from group_aggregation_sent [OF this d2] f2 show ?thesis by simp
    next
      case False
      with r d2 f2 show ?thesis by simp
    qed
  qed
qed

lemma record_info_frame:
  "record_info c s = Some s' \<Longrightarrow> cfg s' = cfg s \<and> sent s' = sent s"
  by (auto simp: record_info_def Let_def cfg_def split: if_splits option.splits)

lemma update_sent:
  assumes "update clk c s = Some s'" and "dispatch_ok s"
  shows "cfg s' = cfg s \<and> dispatch_ok s'"
proof -
  define s0 where "s0 = recv_local_model_from_client clk c s"
  from assms(1) obtain s1 where ri: "record_info c s0 = Some s1"
    and u: "update_client clk c s1 = Some s'"
    by (auto simp: update_def Let_def s0_def split: bind_splits)
  have f0: "cfg s0 = cfg s" "sent s0 = sent s"
    by (simp_all add: s0_def recv_local_model_from_client_def Let_def suspend_def cfg_def)
  from record_info_frame [OF ri] f0 have f1: "cfg s1 = cfg s" "sent s1 = sent s" by simp_all
  define s2 where "s2 = s1\<lparr>iter := iter s1 + 1\<rparr>"
  have f2: "cfg s2 = cfg s" "sent s2 = sent s" using f1 by (simp_all add: s2_def cfg_def)
  from dispatch_ok_cong [OF f2] assms(2) have d2: "dispatch_ok s2" by simp
  from u obtain ci where ci: "client_info s1 c = Some ci"
    by (auto simp: update_client_def Let_def split: bind_splits)
  from u ci have
    r: "if goa ci = -1 then single_update clk c False s2 = Some s'
        else group_update clk c (goa ci) s2 = Some s'"
    by (auto simp: update_client_def Let_def s2_def split: if_splits)
  show ?thesis
  proof (cases "goa ci = -1")
    case True
    with r have "single_update clk c False s2 = Some s'" by simp
    from single_update_sent [OF this d2] f2 show ?thesis by simp
  next
    case False
    with r have "group_update clk c (goa ci) s2 = Some s'" by simp
    from group_update_sent [OF this d2] f2 show ?thesis by simp
  qed
qed

lemma step_event_sent:
  assumes "step_event clk e s = Some s'" and "dispatch_ok s"
  shows "cfg s' = cfg s \<and> dispatch_ok s'"
proof (cases e)
  case (Return c)
  with assms(1) have "update clk c s = Some s'"
    by (simp add: step_event_def split: if_splits)
  from update_sent [OF this assms(2)] show ?thesis .
next
  case (Deadline g)
  define s0 where "s0 = suspend clk (s\<lparr>timers := timers s - {g}\<rparr>)"
  from Deadline assms(1) have r: "group_aggregation clk g s0 = Some s'"
    by (simp add: step_event_def delayed_action_def s0_def split: if_splits)
  have f0: "cfg s0 = cfg s" "sent s0 = sent s"
    by (simp_all add: s0_def suspend_def cfg_def)
  from dispatch_ok_cong [OF f0] assms(2) have "dispatch_ok s0" by simp
  from group_aggregation_sent [OF r this] f0 show ?thesis by simp
qed

lemma run_sent:
  "run clk es s = Some s' \<Longrightarrow> dispatch_ok s \<Longrightarrow> cfg s' = cfg s \<and> dispatch_ok s'"
proof (induction es arbitrary: s)
  case Nil
  then show ?case by simp
next
  case (Cons e es)
  from Cons.prems(1) obtain s1 where a: "step_event clk e s = Some s1"
    and r: "run clk es s1 = Some s'"
    by (auto split: bind_splits)
  from step_event_sent [OF a Cons.prems(2)] have h: "cfg s1 = cfg s" "dispatch_ok s1"
    by simp_all
  from Cons.IH [OF r h(2)] h(1) show ?case by simp
qed

lemma static_cast_int_floor:
  "static_cast_int x = Some k \<Longrightarrow> max k 1 = max \<lfloor>x\<rfloor> 1"
  by (auto simp: static_cast_int_def Let_def split: if_splits)

lemma static_cast_int_nonneg:
  "static_cast_int x = Some k \<Longrightarrow> 0 \<le> x \<Longrightarrow> k = \<lfloor>x\<rfloor>"
  by (auto simp: static_cast_int_def Let_def split: if_splits)

lemma SchedulerCompass_new_dispatch_ok:
  assumes "SchedulerCompass_new M N E P q lam = Some s0" and "1 \<le> M" and "q \<le> 1"
  shows "dispatch_ok s0 \<and> min_local_steps s0 = max \<lfloor>q * real_of_int M\<rfloor> 1
         \<and> max_local_steps_bound s0 = \<lfloor>12 / 10 * real_of_int M\<rfloor>"
proof -
  from assms(1) obtain a b where a: "static_cast_int (q * real_of_int M) = Some a"
    and b: "static_cast_int (12 / 10 * real_of_int M) = Some b"
    and m: "min_local_steps s0 = max a 1" "max_local_steps_bound s0 = b"
       "max_local_steps s0 = M" "sent s0 = []"
    by (auto simp: SchedulerCompass_new_def split: bind_splits)
  from assms(2) have "0 \<le> 12 / 10 * real_of_int M" by simp
  from static_cast_int_nonneg [OF b this] have b': "b = \<lfloor>12 / 10 * real_of_int M\<rfloor>" .
  have "real_of_int M \<le> 12 / 10 * real_of_int M" using assms(2) by simp
  then have Mb: "M \<le> b" unfolding b' by (simp add: le_floor_iff)
  have "q * real_of_int M \<le> real_of_int M" using assms(2,3)
    by (simp add: mult_le_cancel_right1)
  then have "\<lfloor>q * real_of_int M\<rfloor> \<le> M" by (simp add: floor_le_iff)
  with static_cast_int_floor [OF a] assms(2) have aM: "max a 1 \<le> M" by simp
  show ?thesis using m Mb aM b' static_cast_int_floor [OF a]
    by (simp add: dispatch_ok_def bounds_ok_def sent_ok_def)
qed

text \<open>
  C2 (step bound). For a scheduler built by the constructor with \<open>M \<ge> 1\<close> and
  \<open>q \<le> 1\<close>, \<^verbatim>\<open>min_local_steps\<close> is \<open>max \<lfloor>q M\<rfloor> 1\<close>, \<^verbatim>\<open>max_local_steps_bound\<close> is
  \<open>\<lfloor>1.2 M\<rfloor>\<close>, and every step count that \<^verbatim>\<open>_send_model\<close> puts on a client mailbox in
  any run of the scheduler (assigned by \<^verbatim>\<open>_join_group\<close>, by \<^verbatim>\<open>_create_group\<close> or for the
  first group) lies between the two.
\<close>

theorem dispatched_steps_in_bounds:
  assumes "SchedulerCompass_new M N E P q lam = Some s0" and "1 \<le> M" and "q \<le> 1"
    and "run clk es s0 = Some s" and "(c, k) \<in> set (sent s)"
  shows "min_local_steps s0 = max \<lfloor>q * real_of_int M\<rfloor> 1
         \<and> max_local_steps_bound s0 = \<lfloor>12 / 10 * real_of_int M\<rfloor>
         \<and> min_local_steps s0 \<le> k \<and> k \<le> max_local_steps_bound s0"
proof -
  note n = SchedulerCompass_new_dispatch_ok [OF assms(1-3)]
  then have d0: "dispatch_ok s0" by simp
  from run_sent [OF assms(4) d0] have c: "cfg s = cfg s0" and d: "sent_ok s"
    by (simp_all add: dispatch_ok_def)
  from d assms(5) have "steps_in_range (cfg s) k"
    by (auto simp: sent_ok_def list_all_iff)
  then have "min_local_steps s0 \<le> k \<and> k \<le> max_local_steps_bound s0"
    unfolding c by (simp add: steps_in_range_def cfg_def)
  with n show ?thesis by simp
qed

theorem dispatched_steps_in_bounds_witness:
  "(case SchedulerCompass_new 10 3 5 {0, 1, 2} (1 / 5) (3 / 2) of
      None \<Rightarrow> False
    | Some s0 \<Rightarrow>
        (case run ex_clk ex_events s0 of
           None \<Rightarrow> False
         | Some s \<Rightarrow> (2, 8) \<in> set (sent s) \<and> min_local_steps s0 = 2
                     \<and> max_local_steps_bound s0 = 12 \<and> min_local_steps s0 \<le> 8
                     \<and> 8 \<le> max_local_steps_bound s0))"
proof -
  have e: "map_option sent (ex_run ex_events) = Some [(0, 10), (1, 10), (2, 8), (2, 10)]"
    by code_simp
  then obtain s where s: "ex_run ex_events = Some s"
    and t: "sent s = [(0, 10), (1, 10), (2, 8), (2, 10)]"
    by auto
  from s obtain s0 where s0: "SchedulerCompass_new 10 3 5 {0, 1, 2} (1 / 5) (3 / 2) = Some s0"
    and r: "run ex_clk ex_events s0 = Some s"
    by (auto simp: ex_run_def split: bind_splits)
  have m: "(2, 8) \<in> set (sent s)" by (simp add: t)
  from dispatched_steps_in_bounds [OF s0 _ _ r m]
  have "min_local_steps s0 = 2 \<and> max_local_steps_bound s0 = 12
        \<and> min_local_steps s0 \<le> 8 \<and> 8 \<le> max_local_steps_bound s0"
    by simp
  with s0 r m show ?thesis by simp
qed

subsection \<open>Client actors and spawning\<close>

text \<open>
  C5 (host speed perturbation). With \<open>control = 2\<close> the client multiplies the host speed
  by the draw \<open>x\<close> itself, not by \<open>1 + x\<close>: for a host of speed 100 and the draw 0.1 the
  speed is 10, not 110.
\<close>

theorem client_speed_control_2:
  "client_speed 2 h x = h * x \<and> client_speed 2 100 (1 / 10) = 10
   \<and> client_speed 2 100 (1 / 10) \<noteq> 100 * (1 + 1 / 10)"
  by (simp add: client_speed_def)

lemma spawn_loop_costs:
  "a \<in> set (fst (spawn_loop node bound cost nclients dl tc eff i cid)) \<Longrightarrow>
   spawn_node a = node
   \<and> spawn_training_cost a = cost tc (client_multiplier eff (spawn_client a))
   \<and> spawn_dataloader_cost a = dl * client_multiplier eff (spawn_client a)"
proof (induction node bound cost nclients dl tc eff i cid rule: spawn_loop.induct)
  case (1 node bound cost nclients dl tc eff i cid)
  show ?case
  proof (cases "i < bound \<and> cid < nclients")
    case True
    from "1.prems" True consider
      "a = \<lparr>spawn_node = node, spawn_client = cid,
            spawn_dataloader_cost = dl * client_multiplier eff cid,
            spawn_training_cost = cost tc (client_multiplier eff cid)\<rparr>"
      | "a \<in> set (fst (spawn_loop node bound cost nclients dl tc eff (i + 1) (cid + 1)))"
      by (subst (asm) spawn_loop.simps) (auto simp: Let_def case_prod_beta)
    then show ?thesis
    proof cases
      case 1
      then show ?thesis by simp
    next
      case 2
      from "1.IH" [OF True refl refl 2] show ?thesis .
    qed
  next
    case False
    with "1.prems" show ?thesis
      by (subst (asm) spawn_loop.simps) auto
  qed
qed

lemma other_nodes_costs:
  "other_nodes pernode cost nclients dl tc eff node_index cid = Some as \<Longrightarrow>
   2 \<le> node_index \<Longrightarrow> a \<in> set as \<Longrightarrow>
   2 \<le> spawn_node a
   \<and> spawn_training_cost a = cost tc (client_multiplier eff (spawn_client a))
   \<and> spawn_dataloader_cost a = dl * client_multiplier eff (spawn_client a)"
proof (induction pernode cost nclients dl tc eff node_index cid arbitrary: as
       rule: other_nodes.induct)
  case (1 pernode cost nclients dl tc eff node_index cid)
  show ?case
  proof (cases "cid < nclients")
    case True
    with "1.prems"(1) have p: "\<not> pernode \<le> 0"
      by (subst (asm) other_nodes.simps) (auto split: if_splits)
    from "1.prems"(1) True p obtain rest where
      r: "other_nodes pernode cost nclients dl tc eff (node_index + 1)
            (snd (spawn_loop node_index pernode cost nclients dl tc eff 0 cid)) = Some rest"
      and as: "as = fst (spawn_loop node_index pernode cost nclients dl tc eff 0 cid) @ rest"
      by (subst (asm) other_nodes.simps) auto
    from "1.prems"(3) as consider
      "a \<in> set (fst (spawn_loop node_index pernode cost nclients dl tc eff 0 cid))"
      | "a \<in> set rest" by auto
    then show ?thesis
    proof cases
      case 1
      from spawn_loop_costs [OF 1] "1.prems"(2) show ?thesis by simp
    next
      case 2
      from "1.IH" [OF True p r _ 2] "1.prems"(2) show ?thesis by simp
    qed
  next
    case False
    with "1.prems" show ?thesis
      by (subst (asm) other_nodes.simps) auto
  qed
qed

text \<open>
  C6, as the code has it. In \<^verbatim>\<open>FedAvg.cpp\<close> a client created on \<^verbatim>\<open>Node-1\<close> gets the training
  cost of the configuration times 0.8 times its straggler multiplier, and a client on
  another node gets the training cost times its multiplier. In \<^verbatim>\<open>FedCompass.cpp\<close> every
  client, on \<^verbatim>\<open>Node-1\<close> as elsewhere, gets the per-step training cost times its multiplier:
  there is no factor 0.8.
\<close>

theorem spawned_training_cost:
  "(FedAvg_main num_nodes pernode dl tc eff = Some as \<longrightarrow>
      (\<forall>a \<in> set as. spawn_training_cost a =
         (if spawn_node a = 1 then tc * (8 / 10) * client_multiplier eff (spawn_client a)
          else tc * client_multiplier eff (spawn_client a))))
   \<and> (FedCompass_main num_nodes pernode dl tc eff = Some bs \<longrightarrow>
      (\<forall>b \<in> set bs. spawn_training_cost b = tc * client_multiplier eff (spawn_client b)))"
proof (intro conjI impI ballI)
  fix a
  assume m: "FedAvg_main num_nodes pernode dl tc eff = Some as" and a: "a \<in> set as"
  define n where "n = num_nodes * pernode - 1"
  define l where "l = spawn_loop 1 (pernode - 1) (\<lambda>tc multiplier. tc * (8 / 10) * multiplier)
                        n dl tc eff 0 0"
  from m obtain rest where
    r: "other_nodes pernode (\<lambda>tc multiplier. tc * multiplier) n dl tc eff 2 (snd l) = Some rest"
    and as: "as = fst l @ rest"
    by (auto simp: FedAvg_main_def Let_def n_def l_def case_prod_beta)
  from a as consider "a \<in> set (fst l)" | "a \<in> set rest" by auto
  then show "spawn_training_cost a =
         (if spawn_node a = 1 then tc * (8 / 10) * client_multiplier eff (spawn_client a)
          else tc * client_multiplier eff (spawn_client a))"
  proof cases
    case 1
    from spawn_loop_costs [OF 1 [unfolded l_def]] show ?thesis by simp
  next
    case 2
    from other_nodes_costs [OF r _ 2] show ?thesis by simp
  qed
next
  fix b
  assume m: "FedCompass_main num_nodes pernode dl tc eff = Some bs" and b: "b \<in> set bs"
  define n where "n = num_nodes * pernode - 1"
  define l where "l = spawn_loop 1 (pernode - 1) (\<lambda>tc multiplier. tc * multiplier)
                        n dl tc eff 0 0"
  from m obtain rest where
    r: "other_nodes pernode (\<lambda>tc multiplier. tc * multiplier) n dl tc eff 2 (snd l) = Some rest"
    and bs: "bs = fst l @ rest"
    by (auto simp: FedCompass_main_def Let_def n_def l_def case_prod_beta)
  from b bs consider "b \<in> set (fst l)" | "b \<in> set rest" by auto
  then show "spawn_training_cost b = tc * client_multiplier eff (spawn_client b)"
  proof cases
    case 1
    from spawn_loop_costs [OF 1 [unfolded l_def]] show ?thesis by simp
  next
    case 2
    from other_nodes_costs [OF r _ 2] show ?thesis by simp
  qed
qed

theorem spawned_training_cost_witness:
  "map_option (map spawn_summary) (FedAvg_main 3 3 1 1 [2 \<mapsto> 3])
     = Some [(1, 0, 4 / 5), (1, 1, 4 / 5), (2, 2, 3), (2, 3, 1), (2, 4, 1),
             (3, 5, 1), (3, 6, 1), (3, 7, 1)]
   \<and> map_option (map spawn_summary) (FedCompass_main 3 3 1 1 [2 \<mapsto> 3])
     = Some [(1, 0, 1), (1, 1, 1), (2, 2, 3), (2, 3, 1), (2, 4, 1),
             (3, 5, 1), (3, 6, 1), (3, 7, 1)]"
proof -
  have 1: "map_option (map spawn_summary) (FedAvg_main 3 3 1 1 [2 \<mapsto> 3])
     = Some [(1, 0, 4 / 5), (1, 1, 4 / 5), (2, 2, 3), (2, 3, 1), (2, 4, 1),
             (3, 5, 1), (3, 6, 1), (3, 7, 1)]"
    by code_simp
  have 2: "map_option (map spawn_summary) (FedCompass_main 3 3 1 1 [2 \<mapsto> 3])
     = Some [(1, 0, 1), (1, 1, 1), (2, 2, 3), (2, 3, 1), (2, 4, 1),
             (3, 5, 1), (3, 6, 1), (3, 7, 1)]"
    by code_simp
  from 1 obtain as where as: "FedAvg_main 3 3 1 1 [2 \<mapsto> 3] = Some as" by auto
  from 2 obtain bs where bs: "FedCompass_main 3 3 1 1 [2 \<mapsto> 3] = Some bs" by auto
  from spawned_training_cost [of 3 3 1 1 "[2 \<mapsto> 3]" as bs] as bs
  have "\<forall>a \<in> set as. spawn_training_cost a =
         (if spawn_node a = 1 then 1 * (8 / 10) * client_multiplier [2 \<mapsto> 3] (spawn_client a)
          else 1 * client_multiplier [2 \<mapsto> 3] (spawn_client a))"
    by blast
  with 1 2 show ?thesis by simp
qed

text \<open>The claim fails on \<^verbatim>\<open>FedCompass.cpp\<close>: with two nodes of two slots, training cost 1
  and no straggler, client 0 on \<^verbatim>\<open>Node-1\<close> gets the training cost 1, not 0.8.\<close>

theorem FedCompass_node1_counterexample:
  "map_option (map spawn_summary) (FedCompass_main 2 2 1 1 Map.empty)
     = Some [(1, 0, 1), (2, 1, 1), (2, 2, 1)]
   \<and> (1 :: real) \<noteq> 1 * (8 / 10) * client_multiplier Map.empty 0"
  by code_simp

subsection \<open>FedAvg: unmatched last receive\<close>

lemma inbox_of_append: "inbox_of i (xs @ ys) = inbox_of i xs @ inbox_of i ys"
  by (induction i xs rule: inbox_of.induct) auto

lemma inbox_of_puts:
  "i < n \<Longrightarrow> inbox_of i (map (\<lambda>j. Put j x) [0..<n]) = [x]"
proof (induction n)
  case 0
  then show ?case by simp
next
  case (Suc n)
  have "inbox_of i (map (\<lambda>j. Put j x) [0..<n]) = (if i < n then [x] else [])"
  proof (cases "i < n")
    case True
    with Suc.IH show ?thesis by simp
  next
    case False
    have "m \<le> i \<Longrightarrow> inbox_of i (map (\<lambda>j. Put j x) [0..<m]) = []" for m
      by (induction m) (auto simp: inbox_of_append)
    with False show ?thesis by simp
  qed
  with Suc.prems show ?case by (auto simp: inbox_of_append)
qed

lemma inbox_of_gets: "inbox_of i (replicate n Get) = []"
  by (induction n) auto

lemma inbox_of_round: "i < n \<Longrightarrow> inbox_of i (FedAvg_round n) = [1]"
  by (simp add: FedAvg_round_def inbox_of_append inbox_of_puts inbox_of_gets)

lemma inbox_of_rounds:
  "i < n \<Longrightarrow> inbox_of i (FedAvg_rounds n E r) = replicate (nat (E - r)) 1"
proof (induction n E r rule: FedAvg_rounds.induct)
  case (1 n E r)
  show ?case
  proof (cases "r < E")
    case True
    then have "nat (E - r) = Suc (nat (E - (r + 1)))" by simp
    with "1.IH" [OF True "1.prems"] True "1.prems" show ?thesis
      by (subst FedAvg_rounds.simps) (simp add: inbox_of_append inbox_of_round)
  next
    case False
    then show ?thesis by (subst FedAvg_rounds.simps) simp
  qed
qed

lemma FedAvg_client_loop_replicate:
  "i \<le> E + 1 \<Longrightarrow>
   FedAvg_client_loop E i (replicate k x) =
     (if int k < E + 1 - i then Blocked_in (i + int k) else Returned (E + 1))"
proof (induction k arbitrary: i)
  case 0
  then show ?case by (subst FedAvg_client_loop.simps) auto
next
  case (Suc k)
  show ?case
  proof (cases "i < E + 1")
    case True
    with Suc.IH [of "i + 1"] show ?thesis
      by (subst FedAvg_client_loop.simps) (auto simp: algebra_simps)
  next
    case False
    with Suc.prems show ?thesis by (subst FedAvg_client_loop.simps) auto
  qed
qed

text \<open>
  C10. For \<open>E \<ge> 0\<close> epochs and a client \<open>i\<close> of \<open>N\<close>, the server puts on the mailbox of
  the client the bootstrap message and \<open>E\<close> model tokens and nothing else; the client
  loop is written for \<open>E + 1\<close> iterations (with one more token it returns after \<open>E + 1\<close>
  iterations); so against the messages of the server the client completes \<open>E\<close>
  iterations and waits forever in the \<^verbatim>\<open>get\<close> of iteration \<open>E\<close>, the last one.
\<close>

theorem FedAvg_last_receive_unmatched:
  assumes "0 \<le> E" and "i < N"
  shows "inbox_of i (FedAvg_server N E comm_cost) = comm_cost # replicate (nat E) 1
         \<and> FedAvg_client E (inbox_of i (FedAvg_server N E comm_cost)) = Blocked_in E
         \<and> FedAvg_client E (inbox_of i (FedAvg_server N E comm_cost) @ [1]) = Returned (E + 1)"
proof -
  have b: "inbox_of i (FedAvg_server N E comm_cost) = comm_cost # replicate (nat E) 1"
    using assms(2)
    by (simp add: FedAvg_server_def inbox_of_append inbox_of_puts inbox_of_rounds)
  have "FedAvg_client_loop E 0 (replicate (nat E) 1) = Blocked_in E"
    using assms(1) FedAvg_client_loop_replicate [of 0 E "nat E" 1] by simp
  moreover have "replicate (nat E) (1 :: real) @ [1] = replicate (Suc (nat E)) 1"
    by (simp add: replicate_append_same)
  then have "FedAvg_client_loop E 0 (replicate (nat E) 1 @ [1]) = Returned (E + 1)"
    using assms(1) FedAvg_client_loop_replicate [of 0 E "Suc (nat E)" 1] by simp
  ultimately show ?thesis
    by (simp add: b FedAvg_client_def)
qed

theorem FedAvg_last_receive_unmatched_witness:
  "(0 :: int) \<le> 2 \<and> (1 :: nat) < 3
   \<and> inbox_of 1 (FedAvg_server 3 2 4) = [4, 1, 1]
   \<and> FedAvg_client 2 (inbox_of 1 (FedAvg_server 3 2 4)) = Blocked_in 2
   \<and> FedAvg_client 2 (inbox_of 1 (FedAvg_server 3 2 4) @ [1]) = Returned 3"
proof -
  have h: "(0 :: int) \<le> 2" "(1 :: nat) < 3" by simp_all
  note t = FedAvg_last_receive_unmatched [OF h, of 4]
  from t have a: "inbox_of 1 (FedAvg_server 3 2 4) = [4, 1, 1]"
    by (simp add: numeral_2_eq_2)
  from t have b: "FedAvg_client 2 (inbox_of 1 (FedAvg_server 3 2 4)) = Blocked_in 2"
    by (rule conjunct1 [OF conjunct2])
  from t have "FedAvg_client 2 (inbox_of 1 (FedAvg_server 3 2 4) @ [1]) = Returned (2 + 1)"
    by (rule conjunct2 [OF conjunct2])
  then have c: "FedAvg_client 2 (inbox_of 1 (FedAvg_server 3 2 4) @ [1]) = Returned 3"
    by (simp only: one_add_one numeral_plus_one semiring_norm)
  from h a b c show ?thesis by (simp only: simp_thms)
qed

subsection \<open>Straggler rules\<close>

lemma and_then_Inr:
  "and_then r f = Inr y \<longleftrightarrow> (\<exists>x. r = Inr x \<and> f x = Inr y)"
  by (cases r) (auto simp: and_then_def)

lemma apply_to_client_Inr:
  "apply_to_client n e cid st = Inr st' \<longleftrightarrow>
     in_range n cid \<and> st' = (multiply_effect e cid (fst st), True)"
  by (auto simp: apply_to_client_def multiply_effect_def in_range_def)

lemma apply_clients_Inr:
  "apply_clients n e vals st = Inr st' \<longleftrightarrow>
     list_all is_number_integer vals \<and> list_all (in_range n) (map get_int vals)
     \<and> st' = (fold (multiply_effect e) (map get_int vals) (fst st), snd st \<or> vals \<noteq> [])"
proof (induction vals arbitrary: st)
  case Nil
  then show ?case by auto
next
  case (Cons v vals)
  show ?case
    by (simp add: and_then_Inr apply_to_client_Inr Cons.IH) auto
qed

lemma apply_range_Inr:
  "apply_range n e a b st = Inr st' \<longleftrightarrow>
     list_all (in_range n) [a..b]
     \<and> st' = (fold (multiply_effect e) [a..b] (fst st), snd st \<or> a \<le> b)"
proof (induction n e a b st rule: apply_range.induct)
  case (1 n e a b st)
  show ?case
  proof (cases "a \<le> b")
    case True
    have u: "[a..b] = a # [a + 1..b]" using True by (rule upto_rec1)
    show ?thesis
      by (subst apply_range.simps)
         (use True in \<open>auto simp: and_then_Inr apply_to_client_Inr "1.IH" [OF True] u\<close>)
  next
    case False
    then show ?thesis
      by (subst apply_range.simps) auto
  qed
qed

lemma client_phase:
  "(case field rule ''client'' of
      None \<Rightarrow> Inr (effects, False)
    | Some client_val \<Rightarrow>
        if is_number_integer client_val
        then apply_to_client n e (get_int client_val) (effects, False)
        else Inl Client_not_integer) = Inr st
   \<longleftrightarrow> client_ok rule \<and> list_all (in_range n) (client_ids rule)
       \<and> st = (fold (multiply_effect e) (client_ids rule) effects, client_ids rule \<noteq> [])"
  by (auto simp: client_ok_def client_ids_def apply_to_client_Inr split: option.splits)

lemma clients_phase:
  "(case field rule ''clients'' of
      None \<Rightarrow> Inr st1
    | Some clients_val \<Rightarrow>
        (case clients_val of
           JArray vals \<Rightarrow> apply_clients n e vals st1
         | _ \<Rightarrow> Inl Clients_not_array)) = Inr st
   \<longleftrightarrow> clients_ok rule \<and> list_all (in_range n) (clients_ids rule)
       \<and> st = (fold (multiply_effect e) (clients_ids rule) (fst st1),
               snd st1 \<or> clients_ids rule \<noteq> [])"
  by (cases st1)
     (auto simp: clients_ok_def clients_ids_def apply_clients_Inr split: option.splits json.splits)

lemma range_phase:
  "(case field rule ''range'' of
      None \<Rightarrow> Inr st2
    | Some range_val \<Rightarrow>
        and_then (range_bounds range_val) (\<lambda>(start_client, end_client).
          if \<not> start_client \<le> end_client then Inl Range_start_after_end
          else apply_range n e start_client end_client st2)) = Inr st
   \<longleftrightarrow> range_ok rule \<and> list_all (in_range n) (range_ids rule)
       \<and> st = (fold (multiply_effect e) (range_ids rule) (fst st2),
               snd st2 \<or> range_ids rule \<noteq> [])"
proof (cases "field rule ''range''")
  case None
  then show ?thesis by (cases st2) (auto simp: range_ok_def range_ids_def)
next
  case (Some range_val)
  show ?thesis
  proof (cases "range_bounds range_val")
    case (Inl err)
    with Some show ?thesis by (simp add: range_ok_def range_ids_def and_then_def)
  next
    case (Inr ab)
    obtain a b where ab: "ab = (a, b)" by (cases ab)
    with Some Inr show ?thesis
      by (auto simp: range_ok_def range_ids_def and_then_def apply_range_Inr)
  qed
qed

lemma apply_rule_Inr:
  "apply_rule n rule effects = Inr effects' \<longleftrightarrow>
     rule_passes n rule
     \<and> effects' = fold (multiply_effect (rule_effect rule)) (rule_targets rule) effects"
proof (cases "field rule ''effect''")
  case None
  then show ?thesis by (simp add: apply_rule_def rule_passes_def effect_ok_def)
next
  case (Some effect_val)
  show ?thesis
  proof (cases "get_double effect_val")
    case (Inl err)
    with Some show ?thesis
      by (simp add: apply_rule_def rule_passes_def effect_ok_def and_then_def)
  next
    case (Inr e)
    show ?thesis
    proof (cases "e > 0")
      case False
      with Some Inr show ?thesis
        by (simp add: apply_rule_def rule_passes_def effect_ok_def and_then_def)
    next
      case True
      have re: "rule_effect rule = e" using Some Inr by (simp add: rule_effect_def)
      have eo: "effect_ok rule" using Some Inr True by (simp add: effect_ok_def)
      have "apply_rule n rule effects = Inr effects' \<longleftrightarrow>
            (\<exists>st1 st2 st3.
               (case field rule ''client'' of
                  None \<Rightarrow> Inr (effects, False)
                | Some client_val \<Rightarrow>
                    if is_number_integer client_val
                    then apply_to_client n e (get_int client_val) (effects, False)
                    else Inl Client_not_integer) = Inr st1
             \<and> (case field rule ''clients'' of
                  None \<Rightarrow> Inr st1
                | Some clients_val \<Rightarrow>
                    (case clients_val of
                       JArray vals \<Rightarrow> apply_clients n e vals st1
                     | _ \<Rightarrow> Inl Clients_not_array)) = Inr st2
             \<and> (case field rule ''range'' of
                  None \<Rightarrow> Inr st2
                | Some range_val \<Rightarrow>
                    and_then (range_bounds range_val) (\<lambda>(start_client, end_client).
                      if \<not> start_client \<le> end_client then Inl Range_start_after_end
                      else apply_range n e start_client end_client st2)) = Inr st3
             \<and> snd st3 \<and> effects' = fst st3)"
        using Some Inr True
        by (auto simp: apply_rule_def and_then_Inr simp del: split_paired_Ex)
      also have "\<dots> \<longleftrightarrow> rule_passes n rule
           \<and> effects' = fold (multiply_effect e) (rule_targets rule) effects"
        unfolding client_phase clients_phase range_phase
        using eo by (auto simp: rule_passes_def rule_targets_def)
      finally show ?thesis unfolding re .
    qed
  qed
qed

lemma client_multiplier_multiply_effect:
  "client_multiplier (multiply_effect e cid effects) c =
     client_multiplier effects c * (if c = cid then e else 1)"
  by (auto simp: client_multiplier_def multiply_effect_def split: option.splits)

lemma client_multiplier_fold:
  "client_multiplier (fold (multiply_effect e) ids effects) c =
     client_multiplier effects c * e ^ count_list ids c"
  by (induction ids arbitrary: effects) (auto simp: client_multiplier_multiply_effect)

lemma apply_rules_Inr:
  "apply_rules n rules effects = Inr effects' \<longleftrightarrow>
     list_all (rule_passes n) rules
     \<and> effects' = fold (\<lambda>r. fold (multiply_effect (rule_effect r)) (rule_targets r)) rules effects"
  by (induction rules arbitrary: effects) (auto simp: and_then_Inr apply_rule_Inr)

lemma client_multiplier_rules:
  "client_multiplier
     (fold (\<lambda>r. fold (multiply_effect (rule_effect r)) (rule_targets r)) rules effects) c =
   client_multiplier effects c
   * (\<Prod>r\<leftarrow>rules. rule_effect r ^ count_list (rule_targets r) c)"
  by (induction rules arbitrary: effects) (auto simp: client_multiplier_fold)

lemma prod_list_filter:
  "(\<Prod>r\<leftarrow>rules. if P r then f r else (1 :: real)) = (\<Prod>r\<leftarrow>filter P rules. f r)"
  by (induction rules) auto

lemma power_count_at_most_once:
  "count_list ids c \<le> 1 \<Longrightarrow> (e :: real) ^ count_list ids c = (if c \<in> set ids then e else 1)"
proof (cases "c \<in> set ids")
  case True
  assume "count_list ids c \<le> 1"
  moreover from True have "count_list ids c \<noteq> 0" by (simp add: count_list_0_iff)
  ultimately have "count_list ids c = 1" by simp
  with True show ?thesis by simp
next
  case False
  then show ?thesis by (simp add: count_list_0_iff)
qed

text \<open>
  C8, as the code has it. When the parser accepts the rules, the multiplier of a client
  is the product, over the rules, of the effect of the rule raised to the number of
  times the rule lists the client. It does not depend on the order of the rules. For a
  client that no rule lists more than once it is the product of the effects of the
  rules that list it, and 1 when no rule does.
\<close>

theorem straggler_multiplier_composition:
  assumes "parse_client_effects (JArray rules) total_clients = Inr effects"
  shows "client_multiplier effects c =
           (\<Prod>r\<leftarrow>rules. rule_effect r ^ count_list (rule_targets r) c)
         \<and> (mset rules' = mset rules \<longrightarrow>
              straggler_multiplier (JArray rules') total_clients c =
                Inr (client_multiplier effects c))
         \<and> ((\<forall>r \<in> set rules. count_list (rule_targets r) c \<le> 1) \<longrightarrow>
              client_multiplier effects c =
                (\<Prod>r\<leftarrow>filter (\<lambda>r. c \<in> set (rule_targets r)) rules. rule_effect r))"
proof -
  let ?f = "\<lambda>r. rule_effect r ^ count_list (rule_targets r) c"
  let ?run = "\<lambda>rs. fold (\<lambda>r. fold (multiply_effect (rule_effect r)) (rule_targets r)) rs
                       (Map.empty :: int \<rightharpoonup> real)"
  from assms have v: "list_all (rule_passes total_clients) rules" and e: "effects = ?run rules"
    by (simp_all add: parse_client_effects_def apply_rules_Inr)
  have "client_multiplier Map.empty c = 1" by (simp add: client_multiplier_def)
  then have m: "client_multiplier (?run rs) c = (\<Prod>r\<leftarrow>rs. ?f r)" for rs
    by (simp add: client_multiplier_rules)
  have a: "client_multiplier effects c = (\<Prod>r\<leftarrow>rules. ?f r)"
    unfolding e by (rule m)
  have b: "straggler_multiplier (JArray rules') total_clients c =
             Inr (client_multiplier effects c)" if p: "mset rules' = mset rules"
  proof -
    from p have "set rules' = set rules" by (rule mset_eq_setD)
    with v have "list_all (rule_passes total_clients) rules'" by (simp add: list_all_iff)
    then have "parse_client_effects (JArray rules') total_clients = Inr (?run rules')"
      by (simp add: parse_client_effects_def apply_rules_Inr)
    moreover have "(\<Prod>r\<leftarrow>rules'. ?f r) = (\<Prod>r\<leftarrow>rules. ?f r)"
    proof -
      have "(\<Prod>r\<leftarrow>rules'. ?f r) = prod_mset (mset (map ?f rules'))"
        by (simp only: prod_mset_prod_list)
      also have "mset (map ?f rules') = mset (map ?f rules)"
        using p by (metis mset_map)
      also have "prod_mset (mset (map ?f rules)) = (\<Prod>r\<leftarrow>rules. ?f r)"
        by (simp only: prod_mset_prod_list)
      finally show ?thesis .
    qed
    ultimately show ?thesis
      by (simp add: straggler_multiplier_def m a)
  qed
  have c: "client_multiplier effects c =
             (\<Prod>r\<leftarrow>filter (\<lambda>r. c \<in> set (rule_targets r)) rules. rule_effect r)"
    if o: "\<forall>r \<in> set rules. count_list (rule_targets r) c \<le> 1"
  proof -
    have "map ?f rules = map (\<lambda>r. if c \<in> set (rule_targets r) then rule_effect r else 1) rules"
      using o by (simp add: power_count_at_most_once)
    then show ?thesis
      unfolding a by (simp only: prod_list_filter)
  qed
  from a b c show ?thesis by blast
qed

theorem straggler_multiplier_composition_witness:
  "straggler_multiplier (JArray rules_S3) 10 2 = Inr 6
   \<and> straggler_multiplier (JArray (rev rules_S3)) 10 2 = Inr 6
   \<and> straggler_multiplier (JArray rules_S3) 10 4 = Inr 2
   \<and> straggler_multiplier (JArray rules_S3) 10 7 = Inr 1"
proof -
  have 1: "straggler_multiplier (JArray rules_S3) 10 2 = Inr 6"
    and 4: "straggler_multiplier (JArray rules_S3) 10 4 = Inr 2"
    and 7: "straggler_multiplier (JArray rules_S3) 10 7 = Inr 1"
    by code_simp+
  from 1 obtain effects where p: "parse_client_effects (JArray rules_S3) 10 = Inr effects"
    and m: "client_multiplier effects 2 = 6"
    by (auto simp: straggler_multiplier_def split: sum.splits)
  have "mset (rev rules_S3) = mset rules_S3" by simp
  with straggler_multiplier_composition [OF p, of 2 "rev rules_S3"] m
  have "straggler_multiplier (JArray (rev rules_S3)) 10 2 = Inr 6" by simp
  with 1 4 7 show ?thesis by simp
qed

text \<open>The claim fails for a rule that lists a client twice: the rule
  \<^verbatim>\<open>{"clients": [2, 2], "effect": 2}\<close> matches client 2 as one rule of effect 2, and the
  client gets the multiplier 4.\<close>

theorem listed_twice_counterexample:
  "straggler_multiplier (JArray [rule_twice]) 3 2 = Inr 4
   \<and> rule_effect rule_twice = 2 \<and> rule_targets rule_twice = [2, 2]"
  by code_simp

lemma ids_of_list_eq:
  "ids_of_list vals
   = (if list_all is_number_integer vals then Some (map get_int vals) else None)"
proof (induction vals)
  case Nil
  then show ?case by simp
next
  case (Cons v vals)
  show ?case
    by (cases v) (simp_all add: Cons.IH is_number_integer_def get_int_def)
qed

lemma ids_of_list_Some:
  "ids_of_list vals = Some ids \<longleftrightarrow> list_all is_number_integer vals \<and> ids = map get_int vals"
  unfolding ids_of_list_eq by auto

lemma int32_of_Some:
  "int32_of v = Some i \<longleftrightarrow> is_number_integer v \<and> i = get_int v"
  by (cases v) (auto simp: is_number_integer_def get_int_def)

lemma selected_client:
  "selected rule ''client'' ids_of_client = Some ids \<longleftrightarrow>
     client_ok rule \<and> ids = client_ids rule"
  by (auto simp: selected_def ids_of_client_def client_ok_def client_ids_def int32_of_Some
        split: option.splits)

lemma selected_clients:
  "selected rule ''clients'' ids_of_clients = Some ids \<longleftrightarrow>
     clients_ok rule \<and> ids = clients_ids rule"
  by (auto simp: selected_def ids_of_clients_def clients_ok_def clients_ids_def
        ids_of_list_Some split: option.splits json.splits)

lemma range_pair_bounds:
  "range_bounds v = Inr (lo, hi) \<longleftrightarrow>
     (\<exists>a b. range_pair v = Some (a, b) \<and> int32_of a = Some lo \<and> int32_of b = Some hi)"
proof (cases v)
  case (JArray vals)
  show ?thesis
  proof (cases "length vals = 2")
    case True
    then obtain a b where "vals = [a, b]"
      by (auto simp: numeral_2_eq_2 length_Suc_conv)
    with JArray show ?thesis by (auto simp: range_bounds_def int32_of_Some)
  next
    case False
    have "range_pair (JArray vals) = None"
    proof (cases vals)
      case Nil
      then show ?thesis by simp
    next
      case (Cons a r)
      show ?thesis
      proof (cases r)
        case Nil
        with Cons show ?thesis by simp
      next
        case (Cons b r2)
        with \<open>vals = a # r\<close> False show ?thesis by (cases r2) simp_all
      qed
    qed
    with JArray False show ?thesis by (simp add: range_bounds_def)
  qed
next
  case (JObject members)
  then show ?thesis
    by (auto simp: range_bounds_def contains_def field_def int32_of_Some
          split: option.splits)
qed (auto simp: range_bounds_def)

lemma selected_range:
  "selected rule ''range'' ids_of_range = Some ids \<longleftrightarrow>
     range_ok rule \<and> ids = range_ids rule"
proof (cases "field rule ''range''")
  case None
  then show ?thesis by (auto simp: selected_def range_ok_def range_ids_def)
next
  case (Some v)
  show ?thesis
  proof (cases "range_bounds v")
    case (Inl e)
    then have "\<not> (\<exists>lo hi. range_bounds v = Inr (lo, hi))" by simp
    then have "ids_of_range v = None"
      unfolding range_pair_bounds by (auto simp: ids_of_range_def split: option.splits)
    with Some Inl show ?thesis by (simp add: selected_def range_ok_def)
  next
    case (Inr p)
    obtain lo hi where p: "p = (lo, hi)" by (cases p)
    from Inr p range_pair_bounds [of v lo hi]
    obtain a b where "range_pair v = Some (a, b)" "int32_of a = Some lo"
      "int32_of b = Some hi"
      by auto
    with Some Inr p show ?thesis
      by (auto simp: selected_def ids_of_range_def range_ok_def range_ids_def)
  qed
qed

lemma positive_effect_Some:
  "positive_effect rule = Some e \<longleftrightarrow> effect_ok rule \<and> e = rule_effect rule"
  by (auto simp: positive_effect_def effect_ok_def rule_effect_def get_double_def
        split: option.splits json.splits)

lemma listed_Some:
  "listed rule = Some ids \<longleftrightarrow>
     client_ok rule \<and> clients_ok rule \<and> range_ok rule \<and> ids = rule_targets rule"
proof -
  have "listed rule = Some ids \<longleftrightarrow>
        (\<exists>a b c. selected rule ''client'' ids_of_client = Some a
               \<and> selected rule ''clients'' ids_of_clients = Some b
               \<and> selected rule ''range'' ids_of_range = Some c \<and> ids = a @ b @ c)"
    by (auto simp: listed_def split: option.splits)
  then show ?thesis
    unfolding selected_client selected_clients selected_range
    by (auto simp: rule_targets_def)
qed

text \<open>
  C9, as the code has it. The parser accepts a rule exactly when its effect is a JSON
  number greater than 0, every selector it carries is well formed, every id the selectors
  list, read as a 32-bit \<^verbatim>\<open>int\<close>, is at least 0 and below the client count, and the
  selectors list at least one id; the effect is then applied once for each listed id of
  every selector. A rule with a positive effect and no selector stops the load with
  "must target at least one client".
\<close>

theorem straggler_rule_accepted:
  "(apply_rule total_clients rule effects = Inr effects' \<longleftrightarrow>
      (\<exists>e ids. positive_effect rule = Some e \<and> listed rule = Some ids \<and> ids \<noteq> []
          \<and> list_all (in_range total_clients) ids
          \<and> effects' = fold (multiply_effect e) ids effects))
   \<and> ((\<exists>effects''. apply_rule total_clients rule effects = Inr effects'')
        \<longleftrightarrow> rule_valid total_clients rule)
   \<and> (positive_effect rule \<noteq> None \<and> selector_count rule = 0 \<longrightarrow>
        apply_rule total_clients rule effects = Inl No_target)"
proof (intro conjI)
  have v: "rule_passes total_clients rule \<longleftrightarrow> rule_valid total_clients rule"
  proof -
    have "rule_valid total_clients rule \<longleftrightarrow>
          (\<exists>e. positive_effect rule = Some e)
          \<and> (\<exists>ids. listed rule = Some ids \<and> ids \<noteq> [] \<and> list_all (in_range total_clients) ids)"
      by (auto simp: rule_valid_def split: option.splits)
    then show ?thesis
      unfolding positive_effect_Some listed_Some by (auto simp: rule_passes_def)
  qed
  show "apply_rule total_clients rule effects = Inr effects' \<longleftrightarrow>
      (\<exists>e ids. positive_effect rule = Some e \<and> listed rule = Some ids \<and> ids \<noteq> []
          \<and> list_all (in_range total_clients) ids
          \<and> effects' = fold (multiply_effect e) ids effects)"
    unfolding apply_rule_Inr positive_effect_Some listed_Some
    by (auto simp: rule_passes_def)
  show "(\<exists>effects''. apply_rule total_clients rule effects = Inr effects'')
        \<longleftrightarrow> rule_valid total_clients rule"
    by (simp add: apply_rule_Inr v)
  show "positive_effect rule \<noteq> None \<and> selector_count rule = 0 \<longrightarrow>
        apply_rule total_clients rule effects = Inl No_target"
  proof
    assume a: "positive_effect rule \<noteq> None \<and> selector_count rule = 0"
    then have n: "field rule ''client'' = None" "field rule ''clients'' = None"
      "field rule ''range'' = None"
      by (auto simp: selector_count_def contains_def split: if_splits)
    from a obtain e where "positive_effect rule = Some e" by auto
    then have "effect_ok rule" by (simp add: positive_effect_Some)
    then obtain v x where "field rule ''effect'' = Some v" "get_double v = Inr x" "x > 0"
      by (auto simp: effect_ok_def split: option.splits sum.splits)
    with n show "apply_rule total_clients rule effects = Inl No_target"
      by (simp add: apply_rule_def and_then_def)
  qed
qed

theorem straggler_rule_accepted_witness:
  "rule_valid 3 rule_two_selectors \<and> listed rule_two_selectors = Some [0, 1]
   \<and> straggler_multiplier (JArray [rule_two_selectors]) 3 1 = Inr (3 / 2)
   \<and> positive_effect rule_no_selector = Some 2 \<and> selector_count rule_no_selector = 0
   \<and> apply_rule 3 rule_no_selector Map.empty = Inl No_target
   \<and> \<not> rule_valid 3 rule_boolean_effect
   \<and> straggler_multiplier (JArray [rule_boolean_effect]) 3 0 = Inl Type_error
   \<and> rule_valid 3 rule_wide_id \<and> listed rule_wide_id = Some [0]"
proof -
  have v: "rule_valid 3 rule_two_selectors \<and> listed rule_two_selectors = Some [0, 1]"
    by code_simp
  have m: "straggler_multiplier (JArray [rule_two_selectors]) 3 1 = Inr (3 / 2)"
    by code_simp
  have e: "positive_effect rule_no_selector = Some 2 \<and> selector_count rule_no_selector = 0"
    by code_simp
  have b: "\<not> rule_valid 3 rule_boolean_effect
           \<and> straggler_multiplier (JArray [rule_boolean_effect]) 3 0 = Inl Type_error"
    by code_simp
  have w: "rule_valid 3 rule_wide_id \<and> listed rule_wide_id = Some [0]" by code_simp
  note t = straggler_rule_accepted [of 3 rule_no_selector Map.empty]
  from t e have "apply_rule 3 rule_no_selector Map.empty = Inl No_target" by auto
  moreover from straggler_rule_accepted [of 3 rule_two_selectors Map.empty] v
  have "\<exists>effects'. apply_rule 3 rule_two_selectors Map.empty = Inr effects'" by blast
  ultimately show ?thesis using v m e b w by simp
qed

text \<open>The claim fails in both directions: a rule with a positive effect and the two
  selectors \<^verbatim>\<open>client\<close> and \<^verbatim>\<open>clients\<close> is accepted and applied to both clients, and a rule
  with a positive effect and the one selector \<^verbatim>\<open>"clients": []\<close> is rejected.\<close>

theorem two_selectors_counterexample:
  "selector_count rule_two_selectors = 2
   \<and> straggler_multiplier (JArray [rule_two_selectors]) 3 0 = Inr (3 / 2)
   \<and> straggler_multiplier (JArray [rule_two_selectors]) 3 1 = Inr (3 / 2)
   \<and> selector_count rule_empty_clients = 1 \<and> positive_effect rule_empty_clients = Some 2
   \<and> straggler_multiplier (JArray [rule_empty_clients]) 3 0 = Inl No_target"
  by code_simp

subsection \<open>Deadlines of the groups\<close>

text \<open>
  C3, as the code has it. A group that \<^verbatim>\<open>_create_group\<close> creates for a client of speed
  \<open>\<ge> 0\<close>, with \<open>\<lambda> \<ge> 1\<close> and \<open>1 \<le> min_local_steps \<le> max_local_steps\<close>, has its creation
  time \<open>\<le>\<close> its expected arrival time \<open>\<le>\<close> its latest arrival time; \<^verbatim>\<open>_create_group\<close>
  changes no other group and \<^verbatim>\<open>_join_group\<close> changes no deadline. (The first group of
  \<^verbatim>\<open>_assign_group\<close> and the groups that \<^verbatim>\<open>_group_aggregation\<close> has reset are not covered.)
\<close>

theorem create_group_deadlines:
  assumes "client_info s c = Some ci" and "0 \<le> speed ci"
    and "1 \<le> LATEST_TIME_FACTOR s" and "bounds_ok s"
  shows "(create_group c s = Some s' \<longrightarrow>
            (\<exists>g. group_of_arrival s' (group_counter s) = Some g
                 \<and> deadline_monotone (clock s) g)
            \<and> (\<forall>k. k \<noteq> group_counter s \<longrightarrow> group_of_arrival s' k = group_of_arrival s k))
         \<and> (join_group c s = Some (joined, s'') \<longrightarrow>
            (\<forall>k. map_option deadlines (group_of_arrival s'' k)
                   = map_option deadlines (group_of_arrival s k)))"
proof (intro conjI impI)
  assume cr: "create_group c s = Some s'"
  then obtain a where
    a: "create_scan (client_info s) (clock s) (client_info s c) (max_local_steps s)
          (group_list s) (-1) = Some a"
    by (auto simp: create_group_def Let_def split: bind_splits)
  from create_scan_range [OF a] assms(4) have r: "-1 \<le> a \<and> a \<le> max_local_steps s"
    by (simp add: bounds_ok_def)
  define k where "k = (let a1 = (if a \<ge> 0 \<and> a < min_local_steps s then min_local_steps s else a)
                       in if a1 < 0 then max_local_steps s else a1)"
  from r assms(4) have k: "1 \<le> k" by (auto simp: k_def bounds_ok_def Let_def)
  from cr a assms(1)
  have g: "group_of_arrival s' (group_counter s) =
        Some (GOA_new\<lparr>clients := [c],
                expected_arrival_time := clock s + real_of_int k * speed ci,
                latest_arrival_time := clock s + real_of_int k * speed ci * LATEST_TIME_FACTOR s\<rparr>)"
    and o: "\<forall>j. j \<noteq> group_counter s \<longrightarrow> group_of_arrival s' j = group_of_arrival s j"
    by (auto simp: create_group_def Let_def k_def)
  from k assms(2) have p: "0 \<le> real_of_int k * speed ci" by simp
  from p assms(3) have "real_of_int k * speed ci * 1 \<le> real_of_int k * speed ci * LATEST_TIME_FACTOR s"
    by (intro mult_left_mono) simp_all
  with p have "deadline_monotone (clock s)
      (GOA_new\<lparr>clients := [c],
                expected_arrival_time := clock s + real_of_int k * speed ci,
                latest_arrival_time := clock s + real_of_int k * speed ci * LATEST_TIME_FACTOR s\<rparr>)"
    by (simp add: deadline_monotone_def)
  with g show "\<exists>g. group_of_arrival s' (group_counter s) = Some g
                 \<and> deadline_monotone (clock s) g" by blast
  from o show "\<forall>k. k \<noteq> group_counter s \<longrightarrow> group_of_arrival s' k = group_of_arrival s k" .
next
  assume "join_group c s = Some (joined, s'')"
  then show "\<forall>k. map_option deadlines (group_of_arrival s'' k)
                   = map_option deadlines (group_of_arrival s k)"
    by (auto simp: join_group_def Let_def deadlines_def split: bind_splits prod.splits if_splits)
qed

theorem create_group_deadlines_witness:
  "ex_created = Some (24, 30) \<and> map_option clock ex_before_create = Some 12
   \<and> (12 :: real) \<le> 24 \<and> (24 :: real) \<le> 30
   \<and> ex_joined = Some (True, [(0, 0, 0), (1, 24, 30)], [(0, 0, 0), (1, 24, 30)])"
proof -
  have h: "map_option (\<lambda>s. (map_option speed (client_info s 1), LATEST_TIME_FACTOR s,
              min_local_steps s, max_local_steps s, max_local_steps_bound s, clock s))
            ex_before_create = Some (Some (6 / 5), 3 / 2, 2, 10, 12, 12)"
    by code_simp
  then obtain s ci where s: "ex_before_create = Some s" and ci: "client_info s 1 = Some ci"
    and f: "speed ci = 6 / 5" "LATEST_TIME_FACTOR s = 3 / 2" "min_local_steps s = 2"
      "max_local_steps s = 10" "max_local_steps_bound s = 12" "clock s = 12"
    by auto
  have c: "ex_created = Some (24, 30)" by code_simp
  then have "do { s' \<leftarrow> create_group 1 s; g \<leftarrow> group_of_arrival s' (group_counter s);
                  Some (deadlines g) } = Some (24, 30)"
    by (simp add: ex_created_def s)
  then obtain s' g where cr: "create_group 1 s = Some s'"
    and g: "group_of_arrival s' (group_counter s) = Some g" and d: "deadlines g = (24, 30)"
    by (auto split: bind_splits)
  have j: "ex_joined = Some (True, [(0, 0, 0), (1, 24, 30)], [(0, 0, 0), (1, 24, 30)])"
    by code_simp
  have b: "bounds_ok s" by (simp add: bounds_ok_def f)
  from create_group_deadlines [OF ci _ _ b, of s' True s] cr g f
  have "deadline_monotone 12 g" by simp
  with d have "(12 :: real) \<le> 24 \<and> (24 :: real) \<le> 30"
    by (simp add: deadline_monotone_def deadlines_def)
  moreover have "map_option clock ex_before_create = Some 12"
    unfolding s by (simp add: f)
  ultimately show ?thesis using c j by blast
qed

text \<open>
  The claim fails twice in the run of three clients with \<open>M = 10\<close> and \<open>\<lambda> = 1.5\<close>. Client 0
  returns at time 10 with speed 1 and founds the first group, with expected arrival
  \<open>10 + 10 \<sqdot> 1 = 20\<close> after its latest arrival \<open>10 + 1 \<sqdot> 1.5 = 11.5\<close>. When the deadline
  actor of the group then runs, the group stays live (client 0 is still training) with
  both times reset to 0, before its creation time 10.
\<close>

theorem first_group_deadline_counterexample:
  "map_option clock (ex_run [Return 0]) = Some 10
   \<and> map_option group_deadlines (ex_run [Return 0]) = Some [(0, 20, 23 / 2)]
   \<and> map_option (deadlines_hold 10) (ex_run [Return 0]) = Some False
   \<and> map_option group_members (ex_run [Return 0, Deadline 0]) = Some [(0, [0], [])]
   \<and> map_option group_deadlines (ex_run [Return 0, Deadline 0]) = Some [(0, 0, 0)]
   \<and> map_option (deadlines_hold 10) (ex_run [Return 0, Deadline 0]) = Some False"
  by code_simp

subsection \<open>Termination of the FedCompass server\<close>












subsection \<open>Client exclusivity\<close>

lemma in_group_list:
  "(g, x) \<in> set (group_list s) \<longleftrightarrow> 0 \<le> g \<and> g < group_counter s \<and> group_of_arrival s g = Some x"
  by (force simp: group_list_def map_filter_def image_iff)

lemma group_list_Nil:
  "group_list s = [] \<longleftrightarrow> (\<forall>g. 0 \<le> g \<and> g < group_counter s \<longrightarrow> group_of_arrival s g = None)"
proof -
  have "group_list s = [] \<longleftrightarrow> set (group_list s) = {}" by simp
  also have "\<dots> \<longleftrightarrow> (\<forall>g x. (g, x) \<notin> set (group_list s))"
    by (cases "group_list s") auto
  also have "\<dots> \<longleftrightarrow> (\<forall>g. 0 \<le> g \<and> g < group_counter s \<longrightarrow> group_of_arrival s g = None)"
    unfolding in_group_list by auto
  finally show ?thesis .
qed

























































end
